theory Spec2Isabelle
  imports Complex_Main "HOL-Library.Multiset"
begin

section \<open>JavaScript numbers\<close>

text \<open>
  A JavaScript Number is an IEEE-754 double. The model keeps the special values that the
  code under verification can produce and observe (both zeros, both infinities, NaN) and
  the rules of the arithmetic operators on them. A finite non-zero double is represented by
  the real number it denotes, and \<open>Fin 0\<close> is the positive zero. Rounding of finite
  results, overflow and underflow are outside the model: the operators below compute the
  unrounded result on finite operands.
\<close>

datatype jsnum = Fin real | NegZero | PosInf | NegInf | NaN

fun is_nan :: "jsnum \<Rightarrow> bool" where
  "is_nan NaN = True"
| "is_nan _ = False"

fun is_inf :: "jsnum \<Rightarrow> bool" where
  "is_inf PosInf = True"
| "is_inf NegInf = True"
| "is_inf _ = False"

fun is_zero :: "jsnum \<Rightarrow> bool" where
  "is_zero (Fin r) = (r = 0)"
| "is_zero NegZero = True"
| "is_zero _ = False"

fun is_negative :: "jsnum \<Rightarrow> bool" where
  "is_negative (Fin r) = (r < 0)"
| "is_negative NegZero = True"
| "is_negative NegInf = True"
| "is_negative _ = False"

fun fin_val :: "jsnum \<Rightarrow> real" where
  "fin_val (Fin r) = r"
| "fin_val _ = 0"

definition signed_zero :: "bool \<Rightarrow> jsnum" where
  "signed_zero neg = (if neg then NegZero else Fin 0)"

definition signed_inf :: "bool \<Rightarrow> jsnum" where
  "signed_inf neg = (if neg then NegInf else PosInf)"

text \<open>Unary minus flips the sign, also of a zero.\<close>

fun jneg :: "jsnum \<Rightarrow> jsnum" where
  "jneg (Fin r) = (if r = 0 then NegZero else Fin (- r))"
| "jneg NegZero = Fin 0"
| "jneg PosInf = NegInf"
| "jneg NegInf = PosInf"
| "jneg NaN = NaN"

text \<open>
  Addition: NaN is contagious, infinities of opposite sign give NaN, a sum of two negative
  zeros is the negative zero, and an exact sum of zero is the positive zero (round to
  nearest).
\<close>

fun jadd :: "jsnum \<Rightarrow> jsnum \<Rightarrow> jsnum" where
  "jadd NaN _ = NaN"
| "jadd _ NaN = NaN"
| "jadd PosInf NegInf = NaN"
| "jadd NegInf PosInf = NaN"
| "jadd PosInf _ = PosInf"
| "jadd _ PosInf = PosInf"
| "jadd NegInf _ = NegInf"
| "jadd _ NegInf = NegInf"
| "jadd NegZero NegZero = NegZero"
| "jadd NegZero (Fin b) = Fin b"
| "jadd (Fin a) NegZero = Fin a"
| "jadd (Fin a) (Fin b) = Fin (a + b)"

text \<open>The binary \<open>-\<close> of JavaScript: \<open>a - b\<close> is \<open>a + (-b)\<close>.\<close>

definition jsub :: "jsnum \<Rightarrow> jsnum \<Rightarrow> jsnum" where
  "jsub a b = jadd a (jneg b)"

text \<open>
  Multiplication: the sign of the result is the exclusive or of the operands' signs;
  infinity times zero is NaN.
\<close>

definition jmul :: "jsnum \<Rightarrow> jsnum \<Rightarrow> jsnum" where
  "jmul a b =
     (if is_nan a \<or> is_nan b then NaN
      else let neg = (is_negative a \<noteq> is_negative b) in
        if is_inf a \<or> is_inf b then (if is_zero a \<or> is_zero b then NaN else signed_inf neg)
        else if is_zero a \<or> is_zero b then signed_zero neg
        else Fin (fin_val a * fin_val b))"

text \<open>
  Division: infinity by infinity and zero by zero are NaN; a non-zero number divided by a
  zero is an infinity, never an exception.
\<close>

definition jdiv :: "jsnum \<Rightarrow> jsnum \<Rightarrow> jsnum" where
  "jdiv a b =
     (if is_nan a \<or> is_nan b then NaN
      else let neg = (is_negative a \<noteq> is_negative b) in
        if is_inf a then (if is_inf b then NaN else signed_inf neg)
        else if is_inf b then signed_zero neg
        else if is_zero b then (if is_zero a then NaN else signed_inf neg)
        else if is_zero a then signed_zero neg
        else Fin (fin_val a / fin_val b))"

section \<open>Metric calculator\<close>

text \<open>
  \<open>pctChangeYoY\<close> and \<open>pctChangeMoM\<close> of \<^verbatim>\<open>src/app/page.tsx\<close>. The argument is an
  array of numbers or a falsy value (\<open>None\<close>: \<^verbatim>\<open>null\<close> or \<^verbatim>\<open>undefined\<close>); the result is a
  number or \<^verbatim>\<open>null\<close> (\<open>None\<close>). Both index reads are in range once the length check has
  passed.
\<close>

definition pctChangeYoY :: "jsnum list option \<Rightarrow> jsnum option" where
  "pctChangeYoY series =
     (case series of
        None \<Rightarrow> None
      | Some xs \<Rightarrow>
          if length xs < 13 then None
          else let latest = xs ! (length xs - 1);
                   prevYear = xs ! (length xs - 13)
               in Some (jmul (jdiv (jsub latest prevYear) prevYear) (Fin 100)))"

definition pctChangeMoM :: "jsnum list option \<Rightarrow> jsnum option" where
  "pctChangeMoM series =
     (case series of
        None \<Rightarrow> None
      | Some xs \<Rightarrow>
          if length xs < 2 then None
          else let latest = xs ! (length xs - 1);
                   prev = xs ! (length xs - 2)
               in Some (jmul (jdiv (jsub latest prev) prev) (Fin 100)))"

text \<open>
  The formula of the specification, written once over the latest value and the base it is
  compared with: \<open>(latest - base) / base \<times> 100\<close> in JavaScript arithmetic.
\<close>

definition pct_formula :: "jsnum \<Rightarrow> jsnum \<Rightarrow> jsnum" where
  "pct_formula latest base = jmul (jdiv (jsub latest base) base) (Fin 100)"

text \<open>\<open>from_end xs k\<close> is \<open>values[-k]\<close>: the \<open>k\<close>-th value counted from the end.\<close>

definition from_end :: "'a list \<Rightarrow> nat \<Rightarrow> 'a" where
  "from_end xs k = rev xs ! (k - 1)"

section \<open>Strings and numbers\<close>

text \<open>
  A JavaScript string is modelled by a \<open>string\<close>: a sequence of code units below 256. The
  white space that \<^verbatim>\<open>parseFloat\<close> skips is then TAB, LF, VT, FF, CR, SP and NBSP.
\<close>

definition is_digit :: "char \<Rightarrow> bool" where
  "is_digit c = (c \<in> set ''0123456789'')"

definition digit_val :: "char \<Rightarrow> nat" where
  "digit_val c = of_char c - 48"

definition nat_of_digits :: "string \<Rightarrow> nat" where
  "nat_of_digits ds = foldl (\<lambda>n c. 10 * n + digit_val c) 0 ds"

definition is_ws :: "char \<Rightarrow> bool" where
  "is_ws c = (c \<in> set [CHR 0x09, CHR 0x0A, CHR 0x0B, CHR 0x0C, CHR 0x0D, CHR 0x20, CHR 0xA0])"

text \<open>
  The exponent part of a decimal literal: \<open>e\<close> or \<open>E\<close>, an optional sign and at least
  one digit. When the text does not start with a complete exponent part, the literal ends
  before it and the exponent is 0.
\<close>

definition exponent_of :: "string \<Rightarrow> int" where
  "exponent_of r =
     (case r of
        [] \<Rightarrow> 0
      | e # rest \<Rightarrow>
          if e = CHR ''e'' \<or> e = CHR ''E'' then
            (let neg = (rest \<noteq> [] \<and> hd rest = CHR ''-'');
                 ds = (if rest \<noteq> [] \<and> (hd rest = CHR ''+'' \<or> hd rest = CHR ''-'')
                       then tl rest else rest);
                 digs = takeWhile is_digit ds
             in if digs = [] then 0
                else if neg then - int (nat_of_digits digs) else int (nat_of_digits digs))
          else 0)"

text \<open>
  The mathematical value of the longest prefix that is an unsigned decimal literal
  (digits, an optional fraction, an optional exponent), or \<open>None\<close> when no prefix is one.
\<close>

definition parse_unsigned :: "string \<Rightarrow> real option" where
  "parse_unsigned s =
     (let ip = takeWhile is_digit s;
          r1 = dropWhile is_digit s;
          has_dot = (r1 \<noteq> [] \<and> hd r1 = CHR ''.'');
          fp = (if has_dot then takeWhile is_digit (tl r1) else []);
          r2 = (if has_dot then dropWhile is_digit (tl r1) else r1)
      in if ip = [] \<and> fp = [] then None
         else Some ((of_nat (nat_of_digits ip) + of_nat (nat_of_digits fp) / 10 ^ length fp)
                    * 10 powi exponent_of r2))"

text \<open>
  \<^verbatim>\<open>parseFloat\<close> on a string: leading white space is skipped, then the longest prefix that
  is a signed decimal literal or a signed \<^verbatim>\<open>Infinity\<close> is converted; without such a prefix the
  result is NaN. It never throws. The number is the exact value of the literal (a literal
  of value zero gives the zero of its sign).
\<close>

definition parseFloat :: "string \<Rightarrow> jsnum" where
  "parseFloat s =
     (let t = dropWhile is_ws s;
          neg = (t \<noteq> [] \<and> hd t = CHR ''-'');
          u = (if t \<noteq> [] \<and> (hd t = CHR ''+'' \<or> hd t = CHR ''-'') then tl t else t)
      in if take 8 u = ''Infinity'' then signed_inf neg
         else case parse_unsigned u of
                None \<Rightarrow> NaN
              | Some r \<Rightarrow> if r = 0 then signed_zero neg else Fin (if neg then - r else r))"

text \<open>Decimal digits of a natural number.\<close>

function dec_digits :: "nat \<Rightarrow> string" where
  "dec_digits n =
     (if n < 10 then [''0123456789'' ! n]
      else dec_digits (n div 10) @ [''0123456789'' ! (n mod 10)])"
  by pat_completeness auto
termination
  by (relation "measure id") auto

definition padStart :: "nat \<Rightarrow> char \<Rightarrow> string \<Rightarrow> string" where
  "padStart n c s = replicate (n - length s) c @ s"

section \<open>The host environment\<close>

text \<open>
  A date object is its time value: a whole number of milliseconds since the epoch, or NaN
  for an invalid date.
\<close>

datatype jsdate = InvalidDate | ValidDate int

fun time_value :: "jsdate \<Rightarrow> jsnum" where
  "time_value InvalidDate = NaN"
| "time_value (ValidDate ms) = Fin (of_int ms)"

text \<open>
  What the language leaves to the engine or the host is a parameter of the model:
  \<^item> \<open>date_parse_other\<close>: the result of \<^verbatim>\<open>new Date(s)\<close> on a string that is not a date-only
    ISO string \<^verbatim>\<open>YYYY-MM-DD\<close> with elements in bounds (other ISO forms and the engine's own
    heuristics);
  \<^item> \<open>number_to_string_other\<close>: the decimal text of a finite number that is not an integer
    below \<open>10^21\<close> in magnitude;
  \<^item> \<open>local_tza\<close>: the offset of local time from UTC, in milliseconds, at a UTC time.
\<close>

record js_env =
  date_parse_other :: "string \<Rightarrow> jsdate"
  number_to_string_other :: "real \<Rightarrow> string"
  local_tza :: "int \<Rightarrow> int"

definition number_to_string :: "js_env \<Rightarrow> jsnum \<Rightarrow> string" where
  "number_to_string env x =
     (case x of
        NaN \<Rightarrow> ''NaN''
      | NegZero \<Rightarrow> ''0''
      | PosInf \<Rightarrow> ''Infinity''
      | NegInf \<Rightarrow> ''-Infinity''
      | Fin r \<Rightarrow>
          if of_int \<lfloor>r\<rfloor> = r \<and> \<bar>r\<bar> < 10 ^ 21
          then (if r < 0 then ''-'' @ dec_digits (nat \<lfloor>- r\<rfloor>) else dec_digits (nat \<lfloor>r\<rfloor>))
          else number_to_string_other env r)"

declare dec_digits.simps [simp del]

section \<open>Dates\<close>

text \<open>
  The day number of 1 January of a year, the number of days before a month within a year
  and the length of a month, as the language standard defines them; days count from the
  epoch, months from 1.
\<close>

definition is_leap :: "int \<Rightarrow> bool" where
  "is_leap y = (y mod 4 = 0 \<and> (y mod 100 \<noteq> 0 \<or> y mod 400 = 0))"

definition day_from_year :: "int \<Rightarrow> int" where
  "day_from_year y =
     365 * (y - 1970) + (y - 1969) div 4 - (y - 1901) div 100 + (y - 1601) div 400"

definition days_before_month :: "bool \<Rightarrow> nat \<Rightarrow> int" where
  "days_before_month leap m =
     [0, 31, 59, 90, 120, 151, 181, 212, 243, 273, 304, 334] ! (m - 1)
     + (if leap \<and> 2 < m then 1 else 0)"

definition days_in_month :: "int \<Rightarrow> nat \<Rightarrow> nat" where
  "days_in_month y m =
     (if m = 2 then (if is_leap y then 29 else 28)
      else if m = 4 \<or> m = 6 \<or> m = 9 \<or> m = 11 then 30 else 31)"

definition ms_per_day :: int where
  "ms_per_day = 86400000"

definition utc_ms :: "nat \<Rightarrow> nat \<Rightarrow> nat \<Rightarrow> int" where
  "utc_ms y m d =
     (day_from_year (int y) + days_before_month (is_leap (int y)) m + int d - 1) * ms_per_day"

text \<open>
  The year and the month (from 1) of a day number, for the local-time accessors of a date.
\<close>

definition civil_from_days :: "int \<Rightarrow> int \<times> int" where
  "civil_from_days z =
     (let z1 = z + 719468;
          era = z1 div 146097;
          doe = z1 mod 146097;
          yoe = (doe - doe div 1460 + doe div 36524 - doe div 146096) div 365;
          doy = doe - (365 * yoe + yoe div 4 - yoe div 100);
          mp = (5 * doy + 2) div 153;
          m = (if mp < 10 then mp + 3 else mp - 9);
          y = yoe + era * 400
      in (if m \<le> 2 then y + 1 else y, m))"

definition getFullYear :: "js_env \<Rightarrow> jsdate \<Rightarrow> jsnum" where
  "getFullYear env d =
     (case d of
        InvalidDate \<Rightarrow> NaN
      | ValidDate t \<Rightarrow> Fin (of_int (fst (civil_from_days ((t + local_tza env t) div ms_per_day)))))"

text \<open>\<^verbatim>\<open>getMonth\<close> counts months from 0.\<close>

definition getMonth :: "js_env \<Rightarrow> jsdate \<Rightarrow> jsnum" where
  "getMonth env d =
     (case d of
        InvalidDate \<Rightarrow> NaN
      | ValidDate t \<Rightarrow>
          Fin (of_int (snd (civil_from_days ((t + local_tza env t) div ms_per_day)) - 1)))"

text \<open>
  The text \<^verbatim>\<open>YYYY-MM-DD\<close> of a date-only ISO string, split into its three numbers.
\<close>

definition iso_date_only :: "string \<Rightarrow> (nat \<times> nat \<times> nat) option" where
  "iso_date_only s =
     (if length s = 10 \<and> list_all is_digit (take 4 s) \<and> s ! 4 = CHR ''-''
         \<and> list_all is_digit (take 2 (drop 5 s)) \<and> s ! 7 = CHR ''-''
         \<and> list_all is_digit (drop 8 s)
      then Some (nat_of_digits (take 4 s), nat_of_digits (take 2 (drop 5 s)),
                 nat_of_digits (drop 8 s))
      else None)"

text \<open>
  \<^verbatim>\<open>new Date(s)\<close> on a string. A date-only ISO string denotes midnight UTC of that day; a
  month outside 1 to 12 or a day outside 1 to 31 makes the date invalid. Every other string,
  and a day beyond the end of its month, is left to the engine.
\<close>

definition new_Date :: "js_env \<Rightarrow> string \<Rightarrow> jsdate" where
  "new_Date env s =
     (case iso_date_only s of
        None \<Rightarrow> date_parse_other env s
      | Some (y, m, d) \<Rightarrow>
          if m < 1 \<or> 12 < m \<or> d < 1 \<or> 31 < d then InvalidDate
          else if d \<le> days_in_month (int y) m then ValidDate (utc_ms y m d)
          else date_parse_other env s)"

section \<open>Values of a parsed JSON payload\<close>

text \<open>
  The values that \<^verbatim>\<open>res.json()\<close> can deliver, and \<^verbatim>\<open>undefined\<close>, which reading a missing
  property yields. An object is the list of its own properties (each key once).
\<close>

datatype jsval =
    JUndefined
  | JNull
  | JBool bool
  | JNum jsnum
  | JStr string
  | JArr "jsval list"
  | JObj "(string \<times> jsval) list"

text \<open>
  An operation that can throw returns an option: \<open>None\<close> is the exception (here always a
  \<^verbatim>\<open>TypeError\<close>); the only handler in the program catches every exception alike.
\<close>

text \<open>
  Reading a property by name, for the names the parser reads (\<^verbatim>\<open>Results\<close>, \<^verbatim>\<open>series\<close>,
  \<^verbatim>\<open>data\<close>, \<^verbatim>\<open>year\<close>, \<^verbatim>\<open>period\<close>, \<^verbatim>\<open>value\<close>): none of them is inherited from a
  prototype, so only an object's own property can be found, every other value gives
  \<^verbatim>\<open>undefined\<close>, and \<^verbatim>\<open>null\<close> and \<^verbatim>\<open>undefined\<close> throw.
\<close>

fun get_prop :: "jsval \<Rightarrow> string \<Rightarrow> jsval option" where
  "get_prop JUndefined k = None"
| "get_prop JNull k = None"
| "get_prop (JObj kvs) k = Some (case map_of kvs k of None \<Rightarrow> JUndefined | Some v \<Rightarrow> v)"
| "get_prop v k = Some JUndefined"

text \<open>
  Reading index \<open>i\<close>: an element of an array, a one-character string of a string, the
  property named by the decimal digits of \<open>i\<close> of an object.
\<close>

fun get_index :: "jsval \<Rightarrow> nat \<Rightarrow> jsval option" where
  "get_index JUndefined i = None"
| "get_index JNull i = None"
| "get_index (JArr xs) i = Some (if i < length xs then xs ! i else JUndefined)"
| "get_index (JStr s) i = Some (if i < length s then JStr [s ! i] else JUndefined)"
| "get_index (JObj kvs) i =
     Some (case map_of kvs (dec_digits i) of None \<Rightarrow> JUndefined | Some v \<Rightarrow> v)"
| "get_index v i = Some JUndefined"

definition join_with :: "string \<Rightarrow> string list \<Rightarrow> string" where
  "join_with sep ss = (case ss of [] \<Rightarrow> [] | t # ts \<Rightarrow> foldl (\<lambda>acc u. acc @ sep @ u) t ts)"

text \<open>
  Conversion to a string, as a template literal and \<^verbatim>\<open>parseFloat\<close> apply it. An array
  joins the texts of its elements with commas, \<^verbatim>\<open>null\<close> and \<^verbatim>\<open>undefined\<close> elements
  giving the empty text. An object gives \<^verbatim>\<open>[object Object]\<close>, unless it has an own property
  \<^verbatim>\<open>toString\<close>: a value from JSON is not callable, and the conversion throws.
\<close>

fun to_string :: "js_env \<Rightarrow> jsval \<Rightarrow> string option" where
  "to_string env JUndefined = Some ''undefined''"
| "to_string env JNull = Some ''null''"
| "to_string env (JBool b) = Some (if b then ''true'' else ''false'')"
| "to_string env (JNum n) = Some (number_to_string env n)"
| "to_string env (JStr s) = Some s"
| "to_string env (JArr xs) =
     map_option (join_with '','')
       (those (map (\<lambda>x. if x = JUndefined \<or> x = JNull then Some [] else to_string env x) xs))"
| "to_string env (JObj kvs) =
     (if ''toString'' \<in> fst ` set kvs then None else Some ''[object Object]'')"

section \<open>Series parser\<close>

record series_point =
  pt_date :: jsdate
  pt_value :: jsnum

text \<open>\<^verbatim>\<open>s.substr(1)\<close>: defined on a string only; on any other value the call throws.\<close>

fun substr_1 :: "jsval \<Rightarrow> string option" where
  "substr_1 (JStr s) = Some (drop 1 s)"
| "substr_1 v = None"

text \<open>
  The callback of \<^verbatim>\<open>map\<close> in \<open>parseBlsSeries\<close>: the date object of the text
  \<^verbatim>\<open>${d.year}-${d.period.substr(1)}-01\<close> and the number \<^verbatim>\<open>parseFloat(d.value)\<close>.
\<close>

definition parse_point :: "js_env \<Rightarrow> jsval \<Rightarrow> series_point option" where
  "parse_point env d =
     (case get_prop d ''year'' of None \<Rightarrow> None | Some year \<Rightarrow>
      case to_string env year of None \<Rightarrow> None | Some ys \<Rightarrow>
      case get_prop d ''period'' of None \<Rightarrow> None | Some period \<Rightarrow>
      case substr_1 period of None \<Rightarrow> None | Some suffix \<Rightarrow>
      case get_prop d ''value'' of None \<Rightarrow> None | Some v \<Rightarrow>
      case to_string env v of None \<Rightarrow> None | Some vs \<Rightarrow>
        Some \<lparr>pt_date = new_Date env (ys @ ''-'' @ suffix @ ''-01''),
              pt_value = parseFloat vs\<rparr>)"

text \<open>\<^verbatim>\<open>xs.map(f)\<close>: defined on an array only; an exception of the callback ends the call.\<close>

fun array_map :: "(jsval \<Rightarrow> 'a option) \<Rightarrow> jsval \<Rightarrow> 'a list option" where
  "array_map f (JArr xs) = those (map f xs)"
| "array_map f v = None"

text \<open>
  \<^verbatim>\<open>xs.sort(cmp)\<close>. The sort is stable: an element moves behind another only when the
  comparator returns a number above zero; a NaN from the comparator counts as zero. For a
  comparator that is a consistent ordering this determines the result. For any other
  comparator the language leaves the order to the engine, and the insertion sort below
  gives one of the orders an engine may return.
\<close>

fun is_positive :: "jsnum \<Rightarrow> bool" where
  "is_positive (Fin r) = (0 < r)"
| "is_positive PosInf = True"
| "is_positive _ = False"

fun insort_cmp :: "('a \<Rightarrow> 'a \<Rightarrow> jsnum) \<Rightarrow> 'a \<Rightarrow> 'a list \<Rightarrow> 'a list" where
  "insort_cmp cmp x [] = [x]"
| "insort_cmp cmp x (y # ys) =
     (if is_positive (cmp x y) then y # insort_cmp cmp x ys else x # y # ys)"

definition array_sort :: "('a \<Rightarrow> 'a \<Rightarrow> jsnum) \<Rightarrow> 'a list \<Rightarrow> 'a list" where
  "array_sort cmp xs = foldr (insort_cmp cmp) xs []"

text \<open>The comparator \<^verbatim>\<open>(a, b) => a.date - b.date\<close>: the difference of the time values.\<close>

definition by_date :: "series_point \<Rightarrow> series_point \<Rightarrow> jsnum" where
  "by_date a b = jsub (time_value (pt_date a)) (time_value (pt_date b))"

text \<open>\<^verbatim>\<open>json.Results.series[0]\<close> and \<^verbatim>\<open>series.data\<close>.\<close>

definition first_series :: "jsval \<Rightarrow> jsval option" where
  "first_series json =
     (case get_prop json ''Results'' of None \<Rightarrow> None | Some results \<Rightarrow>
      case get_prop results ''series'' of None \<Rightarrow> None | Some ss \<Rightarrow> get_index ss 0)"

definition series_data :: "jsval \<Rightarrow> jsval option" where
  "series_data json =
     (case first_series json of None \<Rightarrow> None | Some series \<Rightarrow> get_prop series ''data'')"

text \<open>The body of the \<^verbatim>\<open>try\<close> block of \<open>parseBlsSeries\<close>.\<close>

definition parse_body :: "js_env \<Rightarrow> jsval \<Rightarrow> series_point list option" where
  "parse_body env json =
     (case series_data json of None \<Rightarrow> None | Some data \<Rightarrow>
      case array_map (parse_point env) data of None \<Rightarrow> None | Some points \<Rightarrow>
        Some (array_sort by_date points))"

text \<open>\<open>parseBlsSeries\<close>: the \<^verbatim>\<open>catch\<close> clause turns every exception into the empty array.\<close>

definition parseBlsSeries :: "js_env \<Rightarrow> jsval \<Rightarrow> series_point list" where
  "parseBlsSeries env json = (case parse_body env json of None \<Rightarrow> [] | Some points \<Rightarrow> points)"

section \<open>Chart rows\<close>

record bls_data =
  headlineNSA :: "series_point list"
  headlineSA :: "series_point list"
  coreSA :: "series_point list"

record chart_row =
  row_date :: string
  Headline_NSA :: jsnum
  Headline_SA :: "jsnum option"
  Core_SA :: "jsnum option"

text \<open>
  \<^verbatim>\<open>xs[i]?.value ?? null\<close>: the value of the point at index \<open>i\<close>, or \<^verbatim>\<open>null\<close> (\<open>None\<close>)
  when the array has no element there.
\<close>

definition value_at :: "series_point list \<Rightarrow> nat \<Rightarrow> jsnum option" where
  "value_at xs i = (if i < length xs then Some (pt_value (xs ! i)) else None)"

text \<open>The label \<^verbatim>\<open>YYYY-MM\<close> of a row, from the local year and month of its date.\<close>

definition month_label :: "js_env \<Rightarrow> jsdate \<Rightarrow> string" where
  "month_label env d =
     number_to_string env (getFullYear env d) @ ''-''
     @ padStart 2 (CHR ''0'') (number_to_string env (jadd (getMonth env d) (Fin 1)))"

text \<open>
  \<open>chartData\<close>: one row for each point of \<open>headlineNSA\<close>, with its index; no rows while
  there is no data.
\<close>

definition chartData :: "js_env \<Rightarrow> bls_data option \<Rightarrow> chart_row list" where
  "chartData env data =
     (case data of
        None \<Rightarrow> []
      | Some d \<Rightarrow>
          map (\<lambda>(i, row).
                 \<lparr>row_date = month_label env (pt_date row),
                  Headline_NSA = pt_value row,
                  Headline_SA = value_at (headlineSA d) i,
                  Core_SA = value_at (coreSA d) i\<rparr>)
              (enumerate 0 (headlineNSA d)))"

text \<open>
  An environment for the examples: an engine without date formats of its own, on a host
  whose local time is UTC. No example converts a number to text that is not an integer,
  and the text of such a number is left empty here.
\<close>

definition example_env :: js_env where
  "example_env =
     \<lparr>date_parse_other = (\<lambda>s. InvalidDate),
      number_to_string_other = (\<lambda>r. ''''),
      local_tza = (\<lambda>t. 0)\<rparr>"

section \<open>Acquisition: \<open>fetchSeries\<close> and \<open>useBlsData\<close>\<close>

text \<open>
  The transport is outside the program. What \<^verbatim>\<open>fetch(url)\<close> delivers is either a fault
  (the promise rejects with an error carrying a message) or a response with a status code
  and the outcome of reading its body as JSON (a rejection with a message, or a value).
\<close>

datatype transport = NetworkFault string | Response nat "string + jsval"

definition BLS_BASE :: string where
  "BLS_BASE = ''https://api.bls.gov/publicAPI/v2/timeseries/data''"

definition HEADLINE_NSA :: string where
  "HEADLINE_NSA = ''CUUR0000SA0''"

definition HEADLINE_SA :: string where
  "HEADLINE_SA = ''CUSR0000SA0''"

definition CORE_SA :: string where
  "CORE_SA = ''CUSR0000SA0L1E''"

text \<open>The address that \<open>fetchSeries\<close> asks the transport for.\<close>

definition request_url :: "js_env \<Rightarrow> string \<Rightarrow> jsnum \<Rightarrow> string" where
  "request_url env seriesId startYear =
     BLS_BASE @ ''/'' @ seriesId @ ''?startyear='' @ number_to_string env startYear"

text \<open>
  \<open>fetchSeries\<close>, as a function of what the transport delivers for that address: \<open>Inl\<close> is
  a rejection with the message of its error, \<open>Inr\<close> the parsed JSON. A response is
  \<^verbatim>\<open>ok\<close> when its status is between 200 and 299.
\<close>

definition fetchSeries :: "transport \<Rightarrow> string + jsval" where
  "fetchSeries t =
     (case t of
        NetworkFault msg \<Rightarrow> Inl msg
      | Response status body \<Rightarrow>
          if 200 \<le> status \<and> status \<le> 299 then body
          else Inl (''BLS fetch failed ('' @ dec_digits status @ '')''))"

record load_state =
  loading :: bool
  error :: "string option"
  data :: "bls_data option"

text \<open>
  One run of the effect of \<open>useBlsData\<close>: the variable \<^verbatim>\<open>cancelled\<close> of its closure, the
  addresses of its three requests, the three promises of \<open>fetchSeries\<close> in the same order
  (\<open>None\<close> while pending), the promise of
  \<^verbatim>\<open>Promise.all\<close> (\<open>None\<close> while pending, then rejected with a message or fulfilled with the
  three values) and whether the code behind \<^verbatim>\<open>await\<close> has run.
\<close>

record cycle =
  startYear :: jsnum
  cancelled :: bool
  requests :: "string list"
  fetched :: "(string + jsval) option list"
  joined :: "(string + jsval list) option"
  resumed :: bool

definition new_cycle :: "js_env \<Rightarrow> jsnum \<Rightarrow> cycle" where
  "new_cycle env y =
     \<lparr>startYear = y, cancelled = False,
      requests = map (\<lambda>seriesId. request_url env seriesId y) [HEADLINE_NSA, HEADLINE_SA, CORE_SA],
      fetched = [None, None, None], joined = None, resumed = False\<rparr>"

fun is_fulfilled :: "(string + jsval) option \<Rightarrow> bool" where
  "is_fulfilled (Some (Inr v)) = True"
| "is_fulfilled _ = False"

fun fulfilled_value :: "(string + jsval) option \<Rightarrow> jsval" where
  "fulfilled_value (Some (Inr v)) = v"
| "fulfilled_value _ = JUndefined"

text \<open>
  \<^verbatim>\<open>Promise.all\<close>: a settled promise stays as it is; a pending one rejects with the reason
  of the first input that rejects and fulfils when no input is left pending.
\<close>

definition promise_all :: "(string + jsval) option list \<Rightarrow> string + jsval
    \<Rightarrow> (string + jsval list) option \<Rightarrow> (string + jsval list) option" where
  "promise_all slots r j =
     (case j of
        Some x \<Rightarrow> Some x
      | None \<Rightarrow>
          (case r of
             Inl msg \<Rightarrow> Some (Inl msg)
           | Inr v \<Rightarrow>
               if list_all is_fulfilled slots then Some (Inr (map fulfilled_value slots))
               else None))"

text \<open>Promise \<open>i\<close> of a cycle settles with \<open>r\<close>; a promise settles once.\<close>

definition settle :: "nat \<Rightarrow> string + jsval \<Rightarrow> cycle \<Rightarrow> cycle" where
  "settle i r c =
     (if i < length (fetched c) \<and> fetched c ! i = None
      then let slots = (fetched c)[i := Some r]
           in c\<lparr>fetched := slots, joined := promise_all slots r (joined c)\<rparr>
      else c)"

text \<open>
  Element \<open>i\<close> of an array in a destructuring pattern: \<^verbatim>\<open>undefined\<close> beyond its end.
\<close>

definition array_elem :: "jsval list \<Rightarrow> nat \<Rightarrow> jsval" where
  "array_elem vs i = (if i < length vs then vs ! i else JUndefined)"

text \<open>
  The code of \<^verbatim>\<open>run\<close> behind \<^verbatim>\<open>await Promise.all(...)\<close>, as the load state it leaves:
  after a fulfilment the three payloads are parsed and published, after a rejection the
  \<^verbatim>\<open>catch\<close> block publishes the message; both return first when \<^verbatim>\<open>cancelled\<close> is set.
  \<open>parseBlsSeries\<close> does not throw, so the \<^verbatim>\<open>catch\<close> block runs for a rejection only.
\<close>

definition after_await :: "js_env \<Rightarrow> cycle \<Rightarrow> load_state \<Rightarrow> load_state" where
  "after_await env c st =
     (case joined c of
        None \<Rightarrow> st
      | Some (Inr vs) \<Rightarrow>
          if cancelled c then st
          else \<lparr>loading = False, error = None,
                data = Some \<lparr>headlineNSA = parseBlsSeries env (array_elem vs 0),
                             headlineSA = parseBlsSeries env (array_elem vs 1),
                             coreSA = parseBlsSeries env (array_elem vs 2)\<rparr>\<rparr>
      | Some (Inl msg) \<Rightarrow>
          if cancelled c then st else \<lparr>loading = False, error = Some msg, data = None\<rparr>)"

text \<open>
  The hook between callbacks: the load state that \<^verbatim>\<open>useState\<close> holds and every cycle
  started so far, the newest last. JavaScript runs one callback at a time, so the hook
  moves by events:
  \<^item> \<open>Effect y\<close>: React runs the effect for a new \<^verbatim>\<open>startYear\<close> (or on mount): the cleanup
    of the previous run sets its \<^verbatim>\<open>cancelled\<close>, then \<^verbatim>\<open>run\<close> publishes the loading state
    and starts three fetches;
  \<^item> \<open>Settle k i t\<close>: the transport delivers \<open>t\<close> for fetch \<open>i\<close> of cycle \<open>k\<close>;
  \<^item> \<open>Resume k\<close>: the code behind \<^verbatim>\<open>await\<close> in cycle \<open>k\<close> runs, once, after the promise of
    \<^verbatim>\<open>Promise.all\<close> has settled.
\<close>

record hook =
  state :: load_state
  cycles :: "cycle list"

datatype event = Effect jsnum | Settle nat nat transport | Resume nat

definition init_hook :: hook where
  "init_hook = \<lparr>state = \<lparr>loading = True, error = None, data = None\<rparr>, cycles = []\<rparr>"

definition cancel_last :: "cycle list \<Rightarrow> cycle list" where
  "cancel_last cs =
     (if cs = [] then [] else cs[length cs - 1 := (cs ! (length cs - 1))\<lparr>cancelled := True\<rparr>])"

fun step :: "js_env \<Rightarrow> hook \<Rightarrow> event \<Rightarrow> hook" where
  "step env h (Effect y) =
     \<lparr>state = \<lparr>loading = True, error = None, data = None\<rparr>,
      cycles = cancel_last (cycles h) @ [new_cycle env y]\<rparr>"
| "step env h (Settle k i t) =
     (if k < length (cycles h)
      then h\<lparr>cycles := (cycles h)[k := settle i (fetchSeries t) (cycles h ! k)]\<rparr>
      else h)"
| "step env h (Resume k) =
     (if k < length (cycles h) \<and> \<not> resumed (cycles h ! k) \<and> joined (cycles h ! k) \<noteq> None
      then \<lparr>state = after_await env (cycles h ! k) (state h),
            cycles = (cycles h)[k := (cycles h ! k)\<lparr>resumed := True\<rparr>]\<rparr>
      else h)"

definition useBlsData :: "js_env \<Rightarrow> event list \<Rightarrow> hook" where
  "useBlsData env evs = foldl (step env) init_hook evs"

section \<open>Payloads of the expected shape\<close>

text \<open>
  The vocabulary of the properties below. A tuple is an object whose \<^verbatim>\<open>year\<close>,
  \<^verbatim>\<open>period\<close> and \<^verbatim>\<open>value\<close> are strings, as the remote service sends them;
  \<open>tuple_point\<close> is the point that such a tuple denotes.
\<close>

definition str_field :: "jsval \<Rightarrow> string \<Rightarrow> string option" where
  "str_field d k =
     (case d of
        JObj kvs \<Rightarrow> (case map_of kvs k of Some (JStr s) \<Rightarrow> Some s | _ \<Rightarrow> None)
      | _ \<Rightarrow> None)"

definition is_tuple :: "jsval \<Rightarrow> bool" where
  "is_tuple d =
     (str_field d ''year'' \<noteq> None \<and> str_field d ''period'' \<noteq> None
      \<and> str_field d ''value'' \<noteq> None)"

definition field_text :: "jsval \<Rightarrow> string \<Rightarrow> string" where
  "field_text d k = (case str_field d k of None \<Rightarrow> [] | Some s \<Rightarrow> s)"

definition tuple_point :: "js_env \<Rightarrow> jsval \<Rightarrow> series_point" where
  "tuple_point env d =
     \<lparr>pt_date = new_Date env (field_text d ''year'' @ ''-'' @ drop 1 (field_text d ''period'')
                               @ ''-01''),
      pt_value = parseFloat (field_text d ''value'')\<rparr>"

text \<open>
  A monthly tuple has a year of four digits and a period of one marker character and a
  two-digit month from 01 to 12; \<open>tuple_month\<close> is its year and month. A payload is well
  formed when its tuples are monthly and no month occurs twice.
\<close>

definition tuple_month :: "jsval \<Rightarrow> (nat \<times> nat) option" where
  "tuple_month d =
     (let y = field_text d ''year''; p = field_text d ''period''
      in if is_tuple d \<and> length y = 4 \<and> list_all is_digit y \<and> length p = 3
            \<and> list_all is_digit (drop 1 p) \<and> 1 \<le> nat_of_digits (drop 1 p)
            \<and> nat_of_digits (drop 1 p) \<le> 12
         then Some (nat_of_digits y, nat_of_digits (drop 1 p))
         else None)"

definition well_formed :: "jsval list \<Rightarrow> bool" where
  "well_formed ts = (list_all (\<lambda>d. tuple_month d \<noteq> None) ts \<and> distinct (map tuple_month ts))"

text \<open>
  An annual-average tuple has a year of four digits and a period whose digits are 13. A
  text is not numeric, for \<^verbatim>\<open>parseFloat\<close>, when it is empty or starts with a character
  that is neither white space, a sign, a point, a digit nor the \<^verbatim>\<open>I\<close> of \<^verbatim>\<open>Infinity\<close>.
\<close>

definition is_annual :: "jsval \<Rightarrow> bool" where
  "is_annual d =
     (length (field_text d ''year'') = 4 \<and> list_all is_digit (field_text d ''year'')
      \<and> drop 1 (field_text d ''period'') = ''13'')"

definition non_numeric :: "string \<Rightarrow> bool" where
  "non_numeric s = (s = [] \<or> (\<not> is_ws (hd s) \<and> hd s \<notin> set ''+-.0123456789I''))"

text \<open>\<open>date_before a b\<close>: both dates are valid and the first is strictly earlier.\<close>

fun date_before :: "jsdate \<Rightarrow> jsdate \<Rightarrow> bool" where
  "date_before (ValidDate s) (ValidDate t) = (s < t)"
| "date_before _ _ = False"

text \<open>The milliseconds of a valid date.\<close>

fun ms_of :: "jsdate \<Rightarrow> int" where
  "ms_of (ValidDate t) = t"
| "ms_of InvalidDate = 0"

text \<open>\<open>all_valid ps\<close>: no point of \<open>ps\<close> has an invalid date.\<close>

definition all_valid :: "series_point list \<Rightarrow> bool" where
  "all_valid ps = (\<forall>p \<in> set ps. pt_date p \<noteq> InvalidDate)"

text \<open>
  The date that a monthly tuple stands for: midnight UTC of the first day of its month.
\<close>

definition month_date :: "jsval \<Rightarrow> jsdate" where
  "month_date d =
     (case tuple_month d of None \<Rightarrow> InvalidDate | Some (y, m) \<Rightarrow> ValidDate (utc_ms y m 1))"

text \<open>\<open>is_array v\<close>: the read of \<^verbatim>\<open>series.data\<close> returned an array.\<close>

fun is_array :: "jsval option \<Rightarrow> bool" where
  "is_array (Some (JArr xs)) = True"
| "is_array _ = False"

section \<open>Cycles of the hook\<close>

text \<open>\<open>others_cancelled h\<close>: every cycle of \<open>h\<close> but the newest has \<^verbatim>\<open>cancelled\<close> set.\<close>

definition others_cancelled :: "hook \<Rightarrow> bool" where
  "others_cancelled h = (\<forall>k. Suc k < length (cycles h) \<longrightarrow> cancelled (cycles h ! k))"

text \<open>
  \<open>delivers k outcome e\<close>: an event of the lifetime of cycle \<open>k\<close>. The effect does not
  run again, and what the transport delivers for fetch \<open>i\<close> of the cycle is \<open>outcome i\<close>.
\<close>

fun delivers :: "nat \<Rightarrow> (nat \<Rightarrow> transport) \<Rightarrow> event \<Rightarrow> bool" where
  "delivers k outcome (Effect y) = False"
| "delivers k outcome (Settle k' i t) = (k' = k \<longrightarrow> t = outcome i)"
| "delivers k outcome (Resume k') = True"

text \<open>The load states that \<^verbatim>\<open>run\<close> publishes at its start and in its \<^verbatim>\<open>catch\<close> block.\<close>

definition loading_state :: load_state where
  "loading_state = \<lparr>loading = True, error = None, data = None\<rparr>"

definition error_state :: "string \<Rightarrow> load_state" where
  "error_state msg = \<lparr>loading = False, error = Some msg, data = None\<rparr>"

text \<open>
  \<open>cycle_fails j msg outcome c\<close>: cycle \<open>c\<close> is not cancelled and runs with the
  transport outcomes \<open>outcome\<close>, of which the one of fetch \<open>j\<close> is a failure with message
  \<open>msg\<close>. \<open>failing_cycle k j msg outcome h\<close>: the newest cycle \<open>k\<close> of \<open>h\<close> is such a
  cycle, and the load state is the one it has published.
\<close>

definition cycle_fails :: "nat \<Rightarrow> string \<Rightarrow> (nat \<Rightarrow> transport) \<Rightarrow> cycle \<Rightarrow> bool" where
  "cycle_fails j msg outcome c =
     (\<not> cancelled c \<and> length (fetched c) = 3 \<and>
      (\<forall>i < 3. fetched c ! i = None \<or> fetched c ! i = Some (fetchSeries (outcome i))) \<and>
      (joined c = None \<or> joined c = Some (Inl msg)) \<and>
      (fetched c ! j \<noteq> None \<longrightarrow> joined c = Some (Inl msg)) \<and>
      (resumed c \<longrightarrow> joined c \<noteq> None))"

definition failing_cycle :: "nat \<Rightarrow> nat \<Rightarrow> string \<Rightarrow> (nat \<Rightarrow> transport) \<Rightarrow> hook \<Rightarrow> bool" where
  "failing_cycle k j msg outcome h =
     (length (cycles h) = Suc k \<and> cycle_fails j msg outcome (cycles h ! k) \<and>
      state h = (if resumed (cycles h ! k) then error_state msg else loading_state))"

section \<open>Example data\<close>

definition ex_rows :: bls_data where
  "ex_rows =
     \<lparr>headlineNSA = [\<lparr>pt_date = ValidDate 1672531200000, pt_value = Fin 299\<rparr>,
                     \<lparr>pt_date = ValidDate 1675209600000, pt_value = Fin 300\<rparr>],
      headlineSA = [\<lparr>pt_date = ValidDate 1669852800000, pt_value = Fin 7\<rparr>,
                    \<lparr>pt_date = ValidDate 1672531200000, pt_value = Fin 8\<rparr>],
      coreSA = [\<lparr>pt_date = ValidDate 1677628800000, pt_value = Fin 9\<rparr>]\<rparr>"

definition ex_short :: bls_data where
  "ex_short =
     \<lparr>headlineNSA = replicate 13 \<lparr>pt_date = ValidDate 0, pt_value = Fin 300\<rparr>,
      headlineSA = replicate 10 \<lparr>pt_date = ValidDate 0, pt_value = Fin 0\<rparr>,
      coreSA = []\<rparr>"

text \<open>A response of the remote service, with the fields the parser reads among others.\<close>

definition bls_tuple :: "string \<Rightarrow> string \<Rightarrow> string \<Rightarrow> jsval" where
  "bls_tuple y p v =
     JObj [(''year'', JStr y), (''period'', JStr p), (''periodName'', JStr ''''),
           (''value'', JStr v), (''footnotes'', JArr [JObj []])]"

definition bls_payload :: "jsval list \<Rightarrow> jsval" where
  "bls_payload ts =
     JObj [(''status'', JStr ''REQUEST_SUCCEEDED''),
           (''Results'',
              JObj [(''series'', JArr [JObj [(''seriesID'', JStr ''CUUR0000SA0''),
                                            (''data'', JArr ts)]])])]"

definition ex_mixed :: "jsval list" where
  "ex_mixed =
     [bls_tuple ''2023'' ''M02'' ''300.84'', bls_tuple ''2023'' ''M13'' ''304.7'',
      bls_tuple ''2023'' ''M01'' ''abc'']"

definition ex_unordered :: "jsval list" where
  "ex_unordered =
     [bls_tuple ''2023'' ''M03'' ''301.84'', bls_tuple ''2022'' ''M12'' ''296.8'',
      bls_tuple ''2023'' ''M01'' ''299.17'']"

text \<open>Transport outcomes and event sequences.\<close>

definition ex_ok :: transport where
  "ex_ok = Response 200 (Inr (bls_payload [bls_tuple ''2023'' ''M01'' ''299.17'']))"

definition ex_status :: "nat \<Rightarrow> transport" where
  "ex_status i = (if i = 2 then Response 500 (Inr JNull) else ex_ok)"

definition ex_fault :: "nat \<Rightarrow> transport" where
  "ex_fault i = (if i = 0 then NetworkFault ''Failed to fetch'' else ex_ok)"

definition ex_superseded :: "event list" where
  "ex_superseded =
     [Effect (Fin 2015), Settle 0 0 ex_ok, Effect (Fin 2016), Settle 1 0 ex_ok,
      Settle 1 1 ex_ok, Settle 1 2 ex_ok, Resume 1,
      Settle 0 1 (NetworkFault ''Failed to fetch'')]"

definition ex_late :: "event list" where
  "ex_late =
     [Effect (Fin 2015), Settle 0 0 ex_ok, Settle 0 1 ex_ok, Settle 0 2 ex_ok,
      Effect (Fin 2016)]"

section \<open>Properties of the metric calculator\<close>

lemma from_end_nth:
  assumes "0 < k" and "k \<le> length xs"
  shows "from_end xs k = xs ! (length xs - k)"
proof -
  have "k - 1 < length xs" using assms by arith
  then have "rev xs ! (k - 1) = xs ! (length xs - Suc (k - 1))"
    by (rule rev_nth)
  moreover have "Suc (k - 1) = k" using assms by arith
  ultimately show ?thesis by (simp add: from_end_def)
qed

lemma jdiv_by_zero:
  assumes "is_zero b"
  shows "jdiv a b \<in> {PosInf, NegInf, NaN}"
  using assms by (cases a; cases b) (auto simp: jdiv_def signed_inf_def Let_def)

lemma jmul_special_100:
  assumes "x \<in> {PosInf, NegInf, NaN}"
  shows "jmul x (Fin 100) \<in> {PosInf, NegInf, NaN}"
  using assms by (auto simp: jmul_def signed_inf_def)

lemma pct_formula_zero_base:
  assumes "is_zero b"
  shows "pct_formula a b \<in> {PosInf, NegInf, NaN}"
  unfolding pct_formula_def by (rule jmul_special_100) (rule jdiv_by_zero [OF assms])

lemma pctChangeYoY_long:
  assumes "13 \<le> length xs"
  shows "pctChangeYoY (Some xs) = Some (pct_formula (from_end xs 1) (from_end xs 13))"
proof -
  have "from_end xs 1 = xs ! (length xs - 1)"
    using assms by (intro from_end_nth) auto
  moreover have "from_end xs 13 = xs ! (length xs - 13)"
    using assms by (intro from_end_nth) auto
  ultimately show ?thesis
    using assms by (simp add: pctChangeYoY_def pct_formula_def Let_def)
qed

lemma pctChangeMoM_long:
  assumes "2 \<le> length xs"
  shows "pctChangeMoM (Some xs) = Some (pct_formula (from_end xs 1) (from_end xs 2))"
proof -
  have "from_end xs 1 = xs ! (length xs - 1)"
    using assms by (intro from_end_nth) auto
  moreover have "from_end xs 2 = xs ! (length xs - 2)"
    using assms by (intro from_end_nth) auto
  ultimately show ?thesis
    using assms by (simp add: pctChangeMoM_def pct_formula_def Let_def)
qed

text \<open>
  Claim C1. For a sequence of fewer than 13 values \<open>pctChangeYoY\<close> returns \<^verbatim>\<open>null\<close>; for
  a sequence of at least 13 values it returns \<open>(values[-1] - values[-13]) / values[-13] \<times> 100\<close>,
  computed with the JavaScript operators.
\<close>

theorem pctChangeYoY_spec:
  "(length xs < 13 \<longrightarrow> pctChangeYoY (Some xs) = None) \<and>
   (13 \<le> length xs \<longrightarrow>
      pctChangeYoY (Some xs) = Some (pct_formula (from_end xs 1) (from_end xs 13)))"
  using pctChangeYoY_long [of xs] by (simp add: pctChangeYoY_def)

theorem pctChangeYoY_spec_witness:
  "pctChangeYoY (Some [Fin 100, Fin 101, Fin 102]) = None \<and>
   pctChangeYoY (Some [Fin 100, Fin 1, Fin 2, Fin 3, Fin 4, Fin 5, Fin 6, Fin 7, Fin 8,
                       Fin 9, Fin 10, Fin 11, Fin 105]) = Some (Fin 5)"
  using pctChangeYoY_spec [of "[Fin 100, Fin 101, Fin 102]"]
        pctChangeYoY_spec [of "[Fin 100, Fin 1, Fin 2, Fin 3, Fin 4, Fin 5, Fin 6, Fin 7,
                                Fin 8, Fin 9, Fin 10, Fin 11, Fin 105]"]
  by (simp add: pct_formula_def from_end_def jmul_def jdiv_def jsub_def)

text \<open>
  Claim C2. For a sequence of fewer than 2 values \<open>pctChangeMoM\<close> returns \<^verbatim>\<open>null\<close>; for a
  sequence of at least 2 values it returns \<open>(values[-1] - values[-2]) / values[-2] \<times> 100\<close>,
  computed with the JavaScript operators.
\<close>

theorem pctChangeMoM_spec:
  "(length xs < 2 \<longrightarrow> pctChangeMoM (Some xs) = None) \<and>
   (2 \<le> length xs \<longrightarrow>
      pctChangeMoM (Some xs) = Some (pct_formula (from_end xs 1) (from_end xs 2)))"
  using pctChangeMoM_long [of xs] by (simp add: pctChangeMoM_def)

theorem pctChangeMoM_spec_witness:
  "pctChangeMoM (Some [Fin 100]) = None \<and>
   pctChangeMoM (Some [Fin 99, Fin 100, Fin 105]) = Some (Fin 5)"
  using pctChangeMoM_spec [of "[Fin 100]"]
        pctChangeMoM_spec [of "[Fin 99, Fin 100, Fin 105]"]
  by (simp add: pct_formula_def from_end_def jmul_def jdiv_def jsub_def)

text \<open>
  Claim C3, as stated, fails: with a previous value of exactly zero and a latest value of
  one, \<open>pctChangeMoM\<close> returns \<^verbatim>\<open>Infinity\<close>, not \<^verbatim>\<open>null\<close>.
\<close>

theorem zero_denominator_counterexample:
  "pctChangeMoM (Some [Fin 0, Fin 1]) = Some PosInf"
  by (simp add: pctChangeMoM_def jmul_def jdiv_def jsub_def signed_inf_def)

text \<open>
  Claim C3, amended. The calculators have no guard on the denominator. When the sequence is
  long enough and the denominator (the value 13 back for YoY, the previous value for MoM) is
  a zero, the result is not \<^verbatim>\<open>null\<close> but the outcome of the division: \<^verbatim>\<open>Infinity\<close>,
  \<^verbatim>\<open>-Infinity\<close> or \<^verbatim>\<open>NaN\<close>.
\<close>

theorem zero_denominator_result:
  "(13 \<le> length xs \<and> is_zero (from_end xs 13) \<longrightarrow>
      pctChangeYoY (Some xs) \<in> {Some PosInf, Some NegInf, Some NaN}) \<and>
   (2 \<le> length xs \<and> is_zero (from_end xs 2) \<longrightarrow>
      pctChangeMoM (Some xs) \<in> {Some PosInf, Some NegInf, Some NaN})"
  using pct_formula_zero_base [of "from_end xs 13" "from_end xs 1"]
        pct_formula_zero_base [of "from_end xs 2" "from_end xs 1"]
  by (auto simp: pctChangeYoY_long pctChangeMoM_long)

theorem zero_denominator_result_witness:
  "pctChangeYoY (Some [Fin 0, Fin 1, Fin 2, Fin 3, Fin 4, Fin 5, Fin 6, Fin 7, Fin 8,
                       Fin 9, Fin 10, Fin 11, Fin 12]) = Some PosInf \<and>
   pctChangeMoM (Some [Fin 3, NegZero, Fin 0]) = Some NaN"
  using zero_denominator_result [of "[Fin 0, Fin 1, Fin 2, Fin 3, Fin 4, Fin 5, Fin 6, Fin 7,
                                      Fin 8, Fin 9, Fin 10, Fin 11, Fin 12]"]
        zero_denominator_result [of "[Fin 3, NegZero, Fin 0]"]
  by (simp add: pctChangeYoY_def pctChangeMoM_def from_end_def jmul_def jdiv_def jsub_def
      signed_inf_def)

section \<open>Properties of the chart rows\<close>

lemma chartData_length: "length (chartData env (Some d)) = length (headlineNSA d)"
  by (simp add: chartData_def)

lemma chartData_nth:
  assumes "i < length (headlineNSA d)"
  shows "chartData env (Some d) ! i =
     \<lparr>row_date = month_label env (pt_date (headlineNSA d ! i)),
      Headline_NSA = pt_value (headlineNSA d ! i),
      Headline_SA = value_at (headlineSA d) i,
      Core_SA = value_at (coreSA d) i\<rparr>"
  using assms by (simp add: chartData_def nth_enumerate_eq)

text \<open>
  Claim C8. The chart has exactly one row for each point of the reference series
  \<open>headlineNSA\<close> (none for an empty reference), and row \<open>i\<close> takes its value from point
  \<open>i\<close> of the reference and its auxiliary fields from the points at index \<open>i\<close> of
  \<open>headlineSA\<close> and \<open>coreSA\<close>, whatever their dates.
\<close>

theorem chartData_positional:
  "length (chartData env (Some d)) = length (headlineNSA d) \<and>
   (headlineNSA d = [] \<longrightarrow> chartData env (Some d) = []) \<and>
   (\<forall>i < length (headlineNSA d).
      Headline_NSA (chartData env (Some d) ! i) = pt_value (headlineNSA d ! i) \<and>
      (i < length (headlineSA d) \<longrightarrow>
         Headline_SA (chartData env (Some d) ! i) = Some (pt_value (headlineSA d ! i))) \<and>
      (i < length (coreSA d) \<longrightarrow>
         Core_SA (chartData env (Some d) ! i) = Some (pt_value (coreSA d ! i))))"
proof (intro conjI allI impI)
  show "length (chartData env (Some d)) = length (headlineNSA d)"
    by (rule chartData_length)
next
  assume "headlineNSA d = []"
  then show "chartData env (Some d) = []" by (simp add: chartData_def)
next
  fix i assume "i < length (headlineNSA d)"
  then show "Headline_NSA (chartData env (Some d) ! i) = pt_value (headlineNSA d ! i)"
    by (simp add: chartData_nth)
next
  fix i assume "i < length (headlineNSA d)" and "i < length (headlineSA d)"
  then show "Headline_SA (chartData env (Some d) ! i) = Some (pt_value (headlineSA d ! i))"
    by (simp add: chartData_nth value_at_def)
next
  fix i assume "i < length (headlineNSA d)" and "i < length (coreSA d)"
  then show "Core_SA (chartData env (Some d) ! i) = Some (pt_value (coreSA d ! i))"
    by (simp add: chartData_nth value_at_def)
qed

theorem chartData_positional_witness:
  "length (chartData example_env (Some ex_rows)) = 2 \<and>
   Headline_NSA (chartData example_env (Some ex_rows) ! 1) = Fin 300 \<and>
   Headline_SA (chartData example_env (Some ex_rows) ! 1) = Some (Fin 8) \<and>
   Core_SA (chartData example_env (Some ex_rows) ! 0) = Some (Fin 9) \<and>
   chartData example_env (Some (ex_rows\<lparr>headlineNSA := []\<rparr>)) = []"
proof -
  note rows = chartData_positional [of example_env ex_rows]
  note none = chartData_positional [of example_env "ex_rows\<lparr>headlineNSA := []\<rparr>"]
  have len: "length (chartData example_env (Some ex_rows)) = 2"
    using rows by (simp add: ex_rows_def)
  have at: "\<forall>i < length (headlineNSA ex_rows).
      Headline_NSA (chartData example_env (Some ex_rows) ! i) = pt_value (headlineNSA ex_rows ! i) \<and>
      (i < length (headlineSA ex_rows) \<longrightarrow>
         Headline_SA (chartData example_env (Some ex_rows) ! i)
           = Some (pt_value (headlineSA ex_rows ! i))) \<and>
      (i < length (coreSA ex_rows) \<longrightarrow>
         Core_SA (chartData example_env (Some ex_rows) ! i)
           = Some (pt_value (coreSA ex_rows ! i)))"
    using rows by blast
  have one: "Headline_NSA (chartData example_env (Some ex_rows) ! 1) = Fin 300
      \<and> Headline_SA (chartData example_env (Some ex_rows) ! 1) = Some (Fin 8)"
    using at [THEN spec, of 1] by (simp add: ex_rows_def)
  have zero: "Core_SA (chartData example_env (Some ex_rows) ! 0) = Some (Fin 9)"
    using at [THEN spec, of 0] by (simp add: ex_rows_def)
  have empty: "chartData example_env (Some (ex_rows\<lparr>headlineNSA := []\<rparr>)) = []"
    using none by simp
  show ?thesis using len one zero empty by simp
qed

text \<open>
  Claim C9. At an index of the reference series where an auxiliary series has no point, the
  field of the row is \<^verbatim>\<open>null\<close> (\<open>None\<close>): not a number, so not zero, and no error.
\<close>

theorem chartData_missing_absent:
  "i < length (headlineNSA d) \<Longrightarrow>
   (length (headlineSA d) \<le> i \<longrightarrow> Headline_SA (chartData env (Some d) ! i) = None) \<and>
   (length (coreSA d) \<le> i \<longrightarrow> Core_SA (chartData env (Some d) ! i) = None)"
  by (simp add: chartData_nth value_at_def)

theorem chartData_missing_absent_witness:
  "Headline_SA (chartData example_env (Some ex_short) ! 10) = None \<and>
   Headline_SA (chartData example_env (Some ex_short) ! 11) = None \<and>
   Headline_SA (chartData example_env (Some ex_short) ! 12) = None \<and>
   Core_SA (chartData example_env (Some ex_short) ! 0) = None"
  using chartData_missing_absent [of 10 ex_short example_env]
        chartData_missing_absent [of 11 ex_short example_env]
        chartData_missing_absent [of 12 ex_short example_env]
        chartData_missing_absent [of 0 ex_short example_env]
  by (simp add: ex_short_def)

section \<open>Properties of dates\<close>

lemma div_step:
  fixes a n :: int
  assumes "0 < n"
  shows "(a + 1) div n = a div n + (if n dvd a + 1 then 1 else 0)"
proof -
  define q where "q = a div n"
  define r where "r = a mod n"
  have a: "a = q * n + r" by (simp add: q_def r_def)
  have r: "0 \<le> r" "r < n" using assms by (simp_all add: r_def)
  show ?thesis
  proof (cases "r = n - 1")
    case True
    then have eq: "a + 1 = (q + 1) * n" using a by (simp add: algebra_simps)
    have "(a + 1) div n = q + 1" unfolding eq using assms by simp
    moreover have "n dvd a + 1" unfolding eq by simp
    ultimately show ?thesis by (simp add: q_def)
  next
    case False
    then have r1: "0 < r + 1" "r + 1 < n" using r by simp_all
    have eq: "a + 1 = q * n + (r + 1)" using a by simp
    have "(a + 1) div n = q + (r + 1) div n" unfolding eq using assms by simp
    then have d: "(a + 1) div n = q" using r1 by simp
    have "(a + 1) mod n = (r + 1) mod n" unfolding eq by simp
    then have "(a + 1) mod n = r + 1" using r1 by simp
    then have "\<not> n dvd a + 1" using r1 by (simp add: dvd_eq_mod_eq_0)
    with d show ?thesis by (simp add: q_def)
  qed
qed

lemma year_sum:
  fixes a b c a' b' c' y :: int
  assumes "c \<le> c'" and "b' - b \<le> a' - a"
  shows "365 * (y - 1970) + a - b + c + 365 \<le> 365 * (y + 1 - 1970) + a' - b' + c'"
proof -
  have "365 * (y + 1 - 1970) = 365 * (y - 1970) + 365" by (simp add: algebra_simps)
  with assms show ?thesis by linarith
qed

lemma day_from_year_step: "day_from_year y + 365 \<le> day_from_year (y + 1)"
proof -
  have a: "(y + 1 - 1969) div 4 = (y - 1969) div 4 + (if 4 dvd y - 1968 then 1 else 0)"
    using div_step [of 4 "y - 1969"] by (simp add: algebra_simps)
  have b: "(y + 1 - 1901) div 100 = (y - 1901) div 100 + (if 100 dvd y - 1900 then 1 else 0)"
    using div_step [of 100 "y - 1901"] by (simp add: algebra_simps)
  have c: "(y - 1601) div 400 \<le> (y + 1 - 1601) div 400"
    by (rule zdiv_mono1) simp_all
  have d: "4 dvd y - 1968" if "100 dvd y - 1900"
  proof -
    have "(4::int) dvd 100" by simp
    with that have "4 dvd y - 1900" by (rule dvd_trans [rotated])
    moreover have "(4::int) dvd 68" by simp
    ultimately have "4 dvd (y - 1900) - 68" by (rule dvd_diff)
    then show ?thesis by simp
  qed
  have e: "(y + 1 - 1901) div 100 - (y - 1901) div 100
      \<le> (y + 1 - 1969) div 4 - (y - 1969) div 4"
    using a b d by (simp split: if_splits)
  show ?thesis unfolding day_from_year_def using c e by (rule year_sum)
qed

lemma day_from_year_mono:
  assumes "y < y'"
  shows "day_from_year y + 365 \<le> day_from_year y'"
proof -
  have "y + 1 \<le> y'" using assms by simp
  then have "day_from_year (y + 1) \<le> day_from_year y'"
  proof (induction y' rule: int_ge_induct)
    case base
    show ?case by simp
  next
    case (step i)
    have "day_from_year i \<le> day_from_year (i + 1)"
      using day_from_year_step [of i] by simp
    with step show ?case by simp
  qed
  with day_from_year_step [of y] show ?thesis by simp
qed


lemma days_before_month_bounds:
  assumes "1 \<le> m" and "m \<le> 12"
  shows "0 \<le> days_before_month l m \<and> days_before_month l m \<le> 335"
proof -
  have "m = 1 \<or> m = 2 \<or> m = 3 \<or> m = 4 \<or> m = 5 \<or> m = 6 \<or> m = 7 \<or> m = 8 \<or> m = 9
      \<or> m = 10 \<or> m = 11 \<or> m = 12" using assms by arith
  then show ?thesis by (auto simp: days_before_month_def)
qed

lemma days_before_month_step:
  assumes "1 \<le> m" and "m < 12"
  shows "days_before_month l m < days_before_month l (Suc m)"
proof -
  have "m = 1 \<or> m = 2 \<or> m = 3 \<or> m = 4 \<or> m = 5 \<or> m = 6 \<or> m = 7 \<or> m = 8 \<or> m = 9
      \<or> m = 10 \<or> m = 11" using assms by arith
  then show ?thesis by (auto simp: days_before_month_def)
qed

lemma days_before_month_mono:
  assumes "1 \<le> m" and "m < m'" and "m' \<le> 12"
  shows "days_before_month l m < days_before_month l m'"
  using assms(2,3)
proof (induction m')
  case 0
  then show ?case by simp
next
  case (Suc k)
  show ?case
  proof (cases "m = k")
    case True
    with Suc.prems assms(1) show ?thesis by (simp add: days_before_month_step)
  next
    case False
    with Suc.prems have "m < k" and "k \<le> 12" by simp_all
    then have "days_before_month l m < days_before_month l k" by (rule Suc.IH)
    moreover have "days_before_month l k < days_before_month l (Suc k)"
      using \<open>m < k\<close> assms(1) Suc.prems by (intro days_before_month_step) simp_all
    ultimately show ?thesis by simp
  qed
qed

lemma utc_ms_mono:
  assumes "1 \<le> m" "m \<le> 12" "1 \<le> m'" "m' \<le> 12"
    and "y < y' \<or> (y = y' \<and> m < m')"
  shows "utc_ms y m 1 < utc_ms y' m' 1"
proof -
  have "day_from_year (int y) + days_before_month (is_leap (int y)) m
      < day_from_year (int y') + days_before_month (is_leap (int y')) m'"
  proof (cases "y < y'")
    case True
    then have "day_from_year (int y) + 365 \<le> day_from_year (int y')"
      by (intro day_from_year_mono) simp
    moreover have "days_before_month (is_leap (int y)) m \<le> 335"
      using days_before_month_bounds assms(1,2) by blast
    moreover have "0 \<le> days_before_month (is_leap (int y')) m'"
      using days_before_month_bounds assms(3,4) by blast
    ultimately show ?thesis by linarith
  next
    case False
    with assms(5) have "y = y'" and "m < m'" by simp_all
    then show ?thesis
      using days_before_month_mono [of m m' "is_leap (int y)"] assms(1,4) by simp
  qed
  then show ?thesis by (simp add: utc_ms_def ms_per_day_def)
qed

lemma utc_ms_inj:
  assumes "1 \<le> m" "m \<le> 12" "1 \<le> m'" "m' \<le> 12"
    and "utc_ms y m 1 = utc_ms y' m' 1"
  shows "y = y' \<and> m = m'"
proof (rule ccontr)
  assume "\<not> (y = y' \<and> m = m')"
  then consider "y < y' \<or> (y = y' \<and> m < m')" | "y' < y \<or> (y' = y \<and> m' < m)"
    by linarith
  then show False
  proof cases
    case 1
    from utc_ms_mono [OF assms(1-4) this] assms(5) show False by simp
  next
    case 2
    from utc_ms_mono [OF assms(3,4,1,2) this] assms(5) show False by simp
  qed
qed


lemma list4:
  assumes "length y = 4"
  obtains a b c d where "y = [a, b, c, d]"
  using assms by (auto simp: length_Suc_conv numeral_eq_Suc)

lemma list2:
  assumes "length y = 2"
  obtains a b where "y = [a, b]"
  using assms by (auto simp: length_Suc_conv numeral_eq_Suc)

lemma iso_date_only_first:
  assumes "length y = 4" and "list_all is_digit y" and "length mm = 2" and "list_all is_digit mm"
  shows "iso_date_only (y @ ''-'' @ mm @ ''-01'')
         = Some (nat_of_digits y, nat_of_digits mm, 1)"
proof -
  obtain a b c d where y: "y = [a, b, c, d]" using assms(1) by (rule list4)
  obtain e f where mm: "mm = [e, f]" using assms(3) by (rule list2)
  have "is_digit CHR ''0''" and "is_digit CHR ''1''" by (simp_all add: is_digit_def)
  moreover have "nat_of_digits ''01'' = 1" by (simp add: nat_of_digits_def digit_val_def)
  ultimately show ?thesis using assms(2,4) by (simp add: iso_date_only_def y mm)
qed

lemma new_Date_month:
  assumes "length y = 4" and "list_all is_digit y" and "length mm = 2" and "list_all is_digit mm"
    and "1 \<le> nat_of_digits mm" and "nat_of_digits mm \<le> 12"
  shows "new_Date env (y @ ''-'' @ mm @ ''-01'')
         = ValidDate (utc_ms (nat_of_digits y) (nat_of_digits mm) 1)"
proof -
  have iso: "iso_date_only (y @ ''-'' @ mm @ ''-01'') = Some (nat_of_digits y, nat_of_digits mm, 1)"
    by (rule iso_date_only_first [OF assms(1-4)])
  show ?thesis unfolding new_Date_def iso using assms(5,6) by (simp add: days_in_month_def)
qed

lemma new_Date_out_of_bounds:
  assumes "length y = 4" and "list_all is_digit y" and "length mm = 2" and "list_all is_digit mm"
    and "nat_of_digits mm < 1 \<or> 12 < nat_of_digits mm"
  shows "new_Date env (y @ ''-'' @ mm @ ''-01'') = InvalidDate"
proof -
  have iso: "iso_date_only (y @ ''-'' @ mm @ ''-01'') = Some (nat_of_digits y, nat_of_digits mm, 1)"
    by (rule iso_date_only_first [OF assms(1-4)])
  show ?thesis unfolding new_Date_def iso using assms(5) by auto
qed

section \<open>Properties of the series parser\<close>

lemma those_map_Some:
  assumes "\<forall>x \<in> set xs. f x = Some (g x)"
  shows "those (map f xs) = Some (map g xs)"
  using assms by (induction xs) auto

lemma those_map_None:
  assumes "x \<in> set xs" and "f x = None"
  shows "those (map f xs) = None"
  using assms by (induction xs) (auto split: option.splits)

lemma mset_insort_cmp: "mset (insort_cmp cmp x xs) = add_mset x (mset xs)"
  by (induction xs) auto

lemma mset_array_sort: "mset (array_sort cmp xs) = mset xs"
  by (induction xs) (auto simp: array_sort_def mset_insort_cmp)

lemma length_array_sort: "length (array_sort cmp xs) = length xs"
  using mset_array_sort [of cmp xs] by (metis size_mset)

lemma str_field_get_prop:
  assumes "str_field d k = Some s"
  shows "get_prop d k = Some (JStr s)"
  using assms
  by (cases d) (auto simp: str_field_def split: option.splits jsval.splits)

lemma parse_point_tuple:
  assumes "is_tuple d"
  shows "parse_point env d = Some (tuple_point env d)"
proof -
  from assms obtain y p v where
    y: "str_field d ''year'' = Some y" and p: "str_field d ''period'' = Some p"
    and v: "str_field d ''value'' = Some v"
    by (auto simp: is_tuple_def)
  show ?thesis
    by (simp add: parse_point_def tuple_point_def field_text_def y p v
        str_field_get_prop [OF y] str_field_get_prop [OF p] str_field_get_prop [OF v])
qed

lemma parse_point_no_period:
  assumes "str_field d ''period'' = None"
  shows "parse_point env d = None"
proof (cases "get_prop d ''year''")
  case None
  then show ?thesis by (simp add: parse_point_def)
next
  case (Some year)
  have "substr_1 period = None" if "get_prop d ''period'' = Some period" for period
    using that assms
    by (cases d) (auto simp: str_field_def split: option.splits jsval.splits)
  then show ?thesis
    by (auto simp: parse_point_def Some split: option.splits)
qed

lemma parse_body_tuples:
  assumes "series_data json = Some (JArr ts)" and "list_all is_tuple ts"
  shows "parse_body env json = Some (array_sort by_date (map (tuple_point env) ts))"
proof -
  have "\<forall>d \<in> set ts. parse_point env d = Some (tuple_point env d)"
    using assms(2) by (simp add: list_all_iff parse_point_tuple)
  then have "those (map (parse_point env) ts) = Some (map (tuple_point env) ts)"
    by (rule those_map_Some)
  then show ?thesis using assms(1) by (simp add: parse_body_def)
qed

lemma parseBlsSeries_tuples:
  assumes "series_data json = Some (JArr ts)" and "list_all is_tuple ts"
  shows "parseBlsSeries env json = array_sort by_date (map (tuple_point env) ts)"
  using parse_body_tuples [OF assms] by (simp add: parseBlsSeries_def)

lemma parse_body_no_array:
  assumes "\<not> is_array (series_data json)"
  shows "parse_body env json = None"
proof (cases "series_data json")
  case None
  then show ?thesis by (simp add: parse_body_def)
next
  case (Some v)
  with assms show ?thesis by (cases v) (simp_all add: parse_body_def)
qed

lemma parse_body_bad_entry:
  assumes "series_data json = Some (JArr ts)" and "d \<in> set ts" and "parse_point env d = None"
  shows "parse_body env json = None"
  using assms those_map_None [of d ts "parse_point env"] by (simp add: parse_body_def)

lemma series_data_bls_payload: "series_data (bls_payload ts) = Some (JArr ts)"
  by (simp add: series_data_def first_series_def bls_payload_def)

lemma is_tuple_bls_tuple: "is_tuple (bls_tuple y p v)"
  by (simp add: is_tuple_def str_field_def bls_tuple_def)

lemmas eval_text = is_digit_def digit_val_def nat_of_digits_def is_ws_def exponent_of_def
  parse_unsigned_def parseFloat_def signed_zero_def signed_inf_def

lemmas eval_date = iso_date_only_def new_Date_def days_in_month_def is_leap_def utc_ms_def
  day_from_year_def days_before_month_def ms_per_day_def

lemmas eval_tuple = bls_tuple_def str_field_def field_text_def tuple_point_def

lemma annual_invalid:
  assumes "is_annual d"
  shows "pt_date (tuple_point env d) = InvalidDate"
proof -
  from assms have y: "length (field_text d ''year'') = 4" "list_all is_digit (field_text d ''year'')"
    and p: "drop 1 (field_text d ''period'') = ''13''"
    by (simp_all add: is_annual_def)
  have "new_Date env (field_text d ''year'' @ ''-'' @ ''13'' @ ''-01'') = InvalidDate"
    using y by (rule new_Date_out_of_bounds)
      (simp_all add: is_digit_def nat_of_digits_def digit_val_def)
  then show ?thesis unfolding tuple_point_def p by simp
qed

lemma parseFloat_non_numeric:
  assumes "non_numeric s"
  shows "parseFloat s = NaN"
proof (cases s)
  case Nil
  then show ?thesis by (simp add: parseFloat_def parse_unsigned_def)
next
  case (Cons c cs)
  with assms have ws: "\<not> is_ws c" and c: "c \<notin> set ''+-.0123456789I''"
    by (simp_all add: non_numeric_def)
  from c have nd: "\<not> is_digit c" by (simp add: is_digit_def)
  from ws have t: "dropWhile is_ws s = s" by (simp add: Cons)
  have u: "parse_unsigned s = None"
    using nd c by (simp add: parse_unsigned_def Cons)
  have inf: "take 8 s \<noteq> ''Infinity''" using c by (auto simp: Cons)
  show ?thesis
    unfolding parseFloat_def t using c u inf by (simp add: Cons)
qed

text \<open>
  Claim C10. When \<^verbatim>\<open>Results.series[0].data\<close> is an array of \<open>n\<close> tuples, the parser returns
  exactly \<open>n\<close> points, the points of the tuples up to order. No tuple is dropped: the point
  of every tuple is in the series, for an annual-average tuple (period suffix \<^verbatim>\<open>13\<close>) with
  an invalid date, for a tuple with a non-numeric value with the value NaN.
\<close>

theorem parse_keeps_every_tuple:
  assumes "series_data json = Some (JArr ts)" and "list_all is_tuple ts"
  shows "length (parseBlsSeries env json) = length ts \<and>
         mset (parseBlsSeries env json) = mset (map (tuple_point env) ts) \<and>
         (\<forall>d \<in> set ts.
            tuple_point env d \<in> set (parseBlsSeries env json) \<and>
            (is_annual d \<longrightarrow> pt_date (tuple_point env d) = InvalidDate) \<and>
            (non_numeric (field_text d ''value'') \<longrightarrow> pt_value (tuple_point env d) = NaN))"
proof -
  have out: "parseBlsSeries env json = array_sort by_date (map (tuple_point env) ts)"
    using assms by (rule parseBlsSeries_tuples)
  have perm: "mset (parseBlsSeries env json) = mset (map (tuple_point env) ts)"
    by (simp add: out mset_array_sort)
  then have "set (parseBlsSeries env json) = set (map (tuple_point env) ts)"
    by (rule mset_eq_setD)
  then have "\<forall>d \<in> set ts. tuple_point env d \<in> set (parseBlsSeries env json)"
    by simp
  moreover have "pt_value (tuple_point env d) = NaN" if "non_numeric (field_text d ''value'')" for d
    using parseFloat_non_numeric [OF that] by (simp add: tuple_point_def)
  moreover have "length (parseBlsSeries env json) = length ts"
    by (simp add: out length_array_sort)
  ultimately show ?thesis using perm annual_invalid by blast
qed

theorem parse_keeps_every_tuple_witness:
  "series_data (bls_payload ex_mixed) = Some (JArr ex_mixed) \<and> list_all is_tuple ex_mixed \<and>
   is_annual (bls_tuple ''2023'' ''M13'' ''304.7'') \<and> non_numeric ''abc'' \<and>
   length (parseBlsSeries example_env (bls_payload ex_mixed)) = 3 \<and>
   mset (parseBlsSeries example_env (bls_payload ex_mixed)) =
     {#\<lparr>pt_date = ValidDate 1675209600000, pt_value = Fin 300.84\<rparr>,
       \<lparr>pt_date = InvalidDate, pt_value = Fin 304.7\<rparr>,
       \<lparr>pt_date = ValidDate 1672531200000, pt_value = NaN\<rparr>#} \<and>
   \<lparr>pt_date = InvalidDate, pt_value = Fin 304.7\<rparr>
     \<in> set (parseBlsSeries example_env (bls_payload ex_mixed)) \<and>
   \<lparr>pt_date = ValidDate 1672531200000, pt_value = NaN\<rparr>
     \<in> set (parseBlsSeries example_env (bls_payload ex_mixed))"
proof -
  have shape: "series_data (bls_payload ex_mixed) = Some (JArr ex_mixed)"
    by (rule series_data_bls_payload)
  have tuples: "list_all is_tuple ex_mixed"
    by (simp add: ex_mixed_def is_tuple_bls_tuple)
  have annual: "is_annual (bls_tuple ''2023'' ''M13'' ''304.7'')"
    by (simp add: is_annual_def eval_tuple is_digit_def)
  have letters: "non_numeric ''abc''"
    by (simp add: non_numeric_def is_ws_def)
  have points: "map (tuple_point example_env) ex_mixed =
     [\<lparr>pt_date = ValidDate 1675209600000, pt_value = Fin 300.84\<rparr>,
      \<lparr>pt_date = InvalidDate, pt_value = Fin 304.7\<rparr>,
      \<lparr>pt_date = ValidDate 1672531200000, pt_value = NaN\<rparr>]"
    by (simp add: ex_mixed_def eval_tuple eval_date eval_text)
  have len: "length ex_mixed = 3" by (simp add: ex_mixed_def)
  note all = parse_keeps_every_tuple [OF shape tuples, of example_env]
  from all
  have "length (parseBlsSeries example_env (bls_payload ex_mixed)) = 3"
    and "mset (parseBlsSeries example_env (bls_payload ex_mixed)) =
      {#\<lparr>pt_date = ValidDate 1675209600000, pt_value = Fin 300.84\<rparr>,
        \<lparr>pt_date = InvalidDate, pt_value = Fin 304.7\<rparr>,
        \<lparr>pt_date = ValidDate 1672531200000, pt_value = NaN\<rparr>#}"
    unfolding points len by simp_all
  moreover
  from all have "\<forall>d \<in> set ex_mixed. tuple_point example_env d
      \<in> set (parseBlsSeries example_env (bls_payload ex_mixed))"
    by blast
  then have "\<forall>p \<in> set (map (tuple_point example_env) ex_mixed).
      p \<in> set (parseBlsSeries example_env (bls_payload ex_mixed))"
    by simp
  then have "\<lparr>pt_date = InvalidDate, pt_value = Fin 304.7\<rparr>
      \<in> set (parseBlsSeries example_env (bls_payload ex_mixed))"
    and "\<lparr>pt_date = ValidDate 1672531200000, pt_value = NaN\<rparr>
      \<in> set (parseBlsSeries example_env (bls_payload ex_mixed))"
    unfolding points by simp_all
  ultimately show ?thesis using shape tuples annual letters by blast
qed

text \<open>
  Claim C4, as stated, fails: a payload of the expected shape whose only tuple has an
  unparsable value, or an unparsable date, is parsed to a series of one point, not to the
  empty series.
\<close>

theorem parse_unparsable_counterexample:
  "parseBlsSeries example_env (bls_payload [bls_tuple ''2023'' ''M01'' ''abc''])
     = [\<lparr>pt_date = ValidDate 1672531200000, pt_value = NaN\<rparr>] \<and>
   parseBlsSeries example_env (bls_payload [bls_tuple ''2023'' ''M13'' ''304.7''])
     = [\<lparr>pt_date = InvalidDate, pt_value = Fin 304.7\<rparr>]"
proof -
  have "parse_point example_env (bls_tuple ''2023'' ''M01'' ''abc'')
      = Some \<lparr>pt_date = ValidDate 1672531200000, pt_value = NaN\<rparr>"
    by (simp add: parse_point_def bls_tuple_def eval_date eval_text)
  moreover
  have "parse_point example_env (bls_tuple ''2023'' ''M13'' ''304.7'')
      = Some \<lparr>pt_date = InvalidDate, pt_value = Fin 304.7\<rparr>"
    by (simp add: parse_point_def bls_tuple_def eval_date eval_text)
  ultimately show ?thesis
    by (simp add: parseBlsSeries_def parse_body_def series_data_bls_payload array_sort_def)
qed

text \<open>
  Claim C4, amended. The parser never raises: whenever the body of its \<^verbatim>\<open>try\<close> block
  throws, the result is the empty series. That is so when \<^verbatim>\<open>Results.series[0].data\<close> is
  missing or not an array, and when an entry of the array is not an object with a string
  \<^verbatim>\<open>period\<close> (\<^verbatim>\<open>null\<close>, for one). An unparsable date or value throws nothing: when all
  entries are tuples the series has a point for each of them.
\<close>

theorem parse_fail_soft:
  "(parse_body env json = None \<longrightarrow> parseBlsSeries env json = []) \<and>
   (\<not> is_array (series_data json) \<longrightarrow> parseBlsSeries env json = []) \<and>
   (series_data json = Some (JArr ts) \<and> (\<exists>d \<in> set ts. str_field d ''period'' = None)
      \<longrightarrow> parseBlsSeries env json = []) \<and>
   (series_data json = Some (JArr ts) \<and> list_all is_tuple ts
      \<longrightarrow> length (parseBlsSeries env json) = length ts)"
proof (intro conjI impI)
  show "parseBlsSeries env json = []" if "parse_body env json = None"
    using that by (simp add: parseBlsSeries_def)
  show "parseBlsSeries env json = []" if "\<not> is_array (series_data json)"
    using parse_body_no_array [OF that] by (simp add: parseBlsSeries_def)
  show "parseBlsSeries env json = []"
    if "series_data json = Some (JArr ts) \<and> (\<exists>d \<in> set ts. str_field d ''period'' = None)"
  proof -
    from that obtain d where "d \<in> set ts" and "str_field d ''period'' = None" by blast
    then have "parse_body env json = None"
      using that parse_body_bad_entry parse_point_no_period by blast
    then show ?thesis by (simp add: parseBlsSeries_def)
  qed
  show "length (parseBlsSeries env json) = length ts"
    if "series_data json = Some (JArr ts) \<and> list_all is_tuple ts"
    using that parseBlsSeries_tuples [of json ts env] by (simp add: length_array_sort)
qed

theorem parse_fail_soft_witness:
  "parseBlsSeries example_env (JObj [(''status'', JStr ''REQUEST_NOT_PROCESSED'')]) = [] \<and>
   parseBlsSeries example_env (bls_payload [bls_tuple ''2023'' ''M01'' ''299.17'', JNull]) = [] \<and>
   length (parseBlsSeries example_env (bls_payload ex_mixed)) = 3"
proof -
  have a: "\<not> is_array (series_data (JObj [(''status'', JStr ''REQUEST_NOT_PROCESSED'')]))"
    by (simp add: series_data_def first_series_def)
  have b: "series_data (bls_payload [bls_tuple ''2023'' ''M01'' ''299.17'', JNull])
        = Some (JArr [bls_tuple ''2023'' ''M01'' ''299.17'', JNull])
      \<and> (\<exists>d \<in> set [bls_tuple ''2023'' ''M01'' ''299.17'', JNull]. str_field d ''period'' = None)"
    by (simp add: series_data_bls_payload str_field_def)
  have c: "series_data (bls_payload ex_mixed) = Some (JArr ex_mixed) \<and> list_all is_tuple ex_mixed"
    by (simp add: series_data_bls_payload ex_mixed_def is_tuple_bls_tuple)
  have "parseBlsSeries example_env (JObj [(''status'', JStr ''REQUEST_NOT_PROCESSED'')]) = []"
    using parse_fail_soft [of example_env "JObj [(''status'', JStr ''REQUEST_NOT_PROCESSED'')]" "[]"] a
    by blast
  moreover
  have "parseBlsSeries example_env (bls_payload [bls_tuple ''2023'' ''M01'' ''299.17'', JNull]) = []"
    using parse_fail_soft [of example_env "bls_payload [bls_tuple ''2023'' ''M01'' ''299.17'', JNull]"
        "[bls_tuple ''2023'' ''M01'' ''299.17'', JNull]"] b
    by blast
  moreover
  have "length (parseBlsSeries example_env (bls_payload ex_mixed)) = length ex_mixed"
    using parse_fail_soft [of example_env "bls_payload ex_mixed" ex_mixed] c
    by blast
  moreover have "length ex_mixed = 3" by (simp add: ex_mixed_def)
  ultimately show ?thesis by simp
qed

section \<open>Order of the parsed series\<close>

lemma tuple_month_point:
  assumes "tuple_month d = Some (y, m)"
  shows "is_tuple d" and "pt_date (tuple_point env d) = ValidDate (utc_ms y m 1)"
    and "1 \<le> m" and "m \<le> 12"
proof -
  let ?y = "field_text d ''year''" and ?p = "field_text d ''period''"
  from assms have t: "is_tuple d" and y: "length ?y = 4" "list_all is_digit ?y"
    and p: "length ?p = 3" "list_all is_digit (drop 1 ?p)"
    and m: "1 \<le> nat_of_digits (drop 1 ?p)" "nat_of_digits (drop 1 ?p) \<le> 12"
    and eq: "y = nat_of_digits ?y" "m = nat_of_digits (drop 1 ?p)"
    by (auto simp: tuple_month_def Let_def split: if_splits)
  have len: "length (drop 1 ?p) = 2" using p(1) by simp
  show "is_tuple d" by (rule t)
  show "pt_date (tuple_point env d) = ValidDate (utc_ms y m 1)"
    unfolding tuple_point_def eq using new_Date_month [OF y len p(2) m] by simp
  show "1 \<le> m" and "m \<le> 12" using m eq by simp_all
qed

lemma by_date_valid:
  assumes "pt_date a \<noteq> InvalidDate" and "pt_date b \<noteq> InvalidDate"
  shows "is_positive (by_date a b) = (ms_of (pt_date b) < ms_of (pt_date a))"
proof -
  obtain s t where "pt_date a = ValidDate s" and "pt_date b = ValidDate t"
    using assms by (cases "pt_date a"; cases "pt_date b") auto
  then show ?thesis by (simp add: by_date_def jsub_def)
qed

lemma set_insort_cmp: "set (insort_cmp cmp x xs) = insert x (set xs)"
  by (induction xs) auto

lemma sorted_insort_by_date:
  assumes "pt_date x \<noteq> InvalidDate" and "all_valid xs"
    and "sorted (map (\<lambda>p. ms_of (pt_date p)) xs)"
  shows "sorted (map (\<lambda>p. ms_of (pt_date p)) (insort_cmp by_date x xs))"
  using assms(2,3)
proof (induction xs)
  case Nil
  show ?case by simp
next
  case (Cons y ys)
  from Cons.prems have y: "pt_date y \<noteq> InvalidDate" and ys: "all_valid ys"
    by (simp_all add: all_valid_def)
  show ?case
  proof (cases "is_positive (by_date x y)")
    case True
    then have "ms_of (pt_date y) < ms_of (pt_date x)"
      using by_date_valid [OF assms(1) y] by simp
    moreover have "sorted (map (\<lambda>p. ms_of (pt_date p)) (insort_cmp by_date x ys))"
      using Cons.IH ys Cons.prems(2) by simp
    ultimately show ?thesis
      using True Cons.prems(2) by (auto simp: set_insort_cmp)
  next
    case False
    then have "ms_of (pt_date x) \<le> ms_of (pt_date y)"
      using by_date_valid [OF assms(1) y] by simp
    then show ?thesis using False Cons.prems(2) by auto
  qed
qed

lemma sorted_array_sort_by_date:
  assumes "all_valid ps"
  shows "sorted (map (\<lambda>p. ms_of (pt_date p)) (array_sort by_date ps))"
  using assms
proof (induction ps)
  case Nil
  show ?case by (simp add: array_sort_def)
next
  case (Cons p ps)
  from Cons.prems have p: "pt_date p \<noteq> InvalidDate" and ps: "all_valid ps"
    by (simp_all add: all_valid_def)
  have "all_valid (array_sort by_date ps)"
    using ps mset_array_sort [of by_date ps] by (metis all_valid_def set_mset_mset)
  with p Cons.IH [OF ps]
  have "sorted (map (\<lambda>p. ms_of (pt_date p)) (insort_cmp by_date p (array_sort by_date ps)))"
    by (intro sorted_insort_by_date)
  then show ?case by (simp add: array_sort_def)
qed


lemma well_formed_dates:
  assumes "well_formed ts" and "d \<in> set ts"
  shows "is_tuple d" and "pt_date (tuple_point env d) = month_date d"
    and "month_date d \<noteq> InvalidDate"
proof -
  from assms obtain y m where ym: "tuple_month d = Some (y, m)"
    by (auto simp: well_formed_def list_all_iff)
  show "is_tuple d" using ym by (rule tuple_month_point)
  show "pt_date (tuple_point env d) = month_date d"
    using tuple_month_point(2) [OF ym] by (simp add: month_date_def ym)
  show "month_date d \<noteq> InvalidDate" by (simp add: month_date_def ym)
qed

lemma month_date_inj:
  assumes "tuple_month d \<noteq> None" and "tuple_month d' \<noteq> None"
    and "ms_of (month_date d) = ms_of (month_date d')"
  shows "tuple_month d = tuple_month d'"
proof -
  from assms(1,2) obtain y m y' m' where
    ym: "tuple_month d = Some (y, m)" and ym': "tuple_month d' = Some (y', m')" by auto
  have "utc_ms y m 1 = utc_ms y' m' 1"
    using assms(3) by (simp add: month_date_def ym ym')
  then have "y = y' \<and> m = m'"
    using tuple_month_point(3,4) [OF ym] tuple_month_point(3,4) [OF ym']
    by (intro utc_ms_inj)
  then show ?thesis by (simp add: ym ym')
qed

lemma well_formed_distinct:
  assumes "well_formed ts"
  shows "distinct (map (\<lambda>d. ms_of (month_date d)) ts)"
proof -
  from assms have dist: "distinct (map tuple_month ts)"
    and some: "\<forall>d \<in> set ts. tuple_month d \<noteq> None"
    by (simp_all add: well_formed_def list_all_iff)
  from dist have "distinct ts" and inj: "inj_on tuple_month (set ts)"
    by (simp_all add: distinct_map)
  moreover have "inj_on (\<lambda>d. ms_of (month_date d)) (set ts)"
  proof (rule inj_onI)
    fix d d' assume d: "d \<in> set ts" and d': "d' \<in> set ts"
      and eq: "ms_of (month_date d) = ms_of (month_date d')"
    have "tuple_month d = tuple_month d'"
      using some d d' eq by (intro month_date_inj) auto
    with inj d d' show "d = d'" by (auto dest: inj_onD)
  qed
  ultimately show ?thesis by (simp add: distinct_map)
qed

lemma month_date_order:
  assumes "tuple_month d = Some (y, m)" and "tuple_month d' = Some (y', m')"
  shows "date_before (month_date d) (month_date d') = (y < y' \<or> (y = y' \<and> m < m'))"
proof -
  note b = tuple_month_point(3,4) [OF assms(1)] and b' = tuple_month_point(3,4) [OF assms(2)]
  have eq: "date_before (month_date d) (month_date d') = (utc_ms y m 1 < utc_ms y' m' 1)"
    by (simp add: month_date_def assms)
  show ?thesis
  proof (cases "y < y' \<or> (y = y' \<and> m < m')")
    case True
    with utc_ms_mono [OF b b' True] eq show ?thesis by simp
  next
    case False
    then consider "y = y' \<and> m = m'" | "y' < y \<or> (y' = y \<and> m' < m)" by linarith
    then have "\<not> utc_ms y m 1 < utc_ms y' m' 1"
    proof cases
      case 1
      then show ?thesis by simp
    next
      case 2
      from utc_ms_mono [OF b' b 2] show ?thesis by simp
    qed
    with False eq show ?thesis by simp
  qed
qed

text \<open>
  Claim C5. For a well-formed payload (monthly tuples, no month twice), in whatever order
  its tuples come, the series that \<open>parseBlsSeries\<close> returns is strictly ascending by
  date; its dates are the first days of the tuples' months, built from the year and the
  digits of the period; and the order of those dates is the order of the calendar months.
\<close>

theorem parse_sorted_by_month:
  assumes "series_data json = Some (JArr ts)" and "well_formed ts"
  shows "sorted_wrt (\<lambda>a b. date_before (pt_date a) (pt_date b)) (parseBlsSeries env json) \<and>
         mset (map pt_date (parseBlsSeries env json)) = mset (map month_date ts) \<and>
         (\<forall>d \<in> set ts. \<forall>d' \<in> set ts. \<forall>y m y' m'.
            tuple_month d = Some (y, m) \<and> tuple_month d' = Some (y', m') \<longrightarrow>
            date_before (month_date d) (month_date d') = (y < y' \<or> (y = y' \<and> m < m')))"
proof -
  let ?key = "\<lambda>p. ms_of (pt_date p)"
  let ?ps = "map (tuple_point env) ts"
  let ?out = "parseBlsSeries env json"
  have tuples: "list_all is_tuple ts"
    using well_formed_dates(1) [OF assms(2)] by (simp add: list_all_iff)
  have out: "?out = array_sort by_date ?ps"
    using assms(1) tuples by (rule parseBlsSeries_tuples)
  have dates: "map pt_date ?ps = map month_date ts"
    using well_formed_dates(2) [OF assms(2)] by simp
  have valid: "all_valid ?ps"
    using well_formed_dates(2,3) [OF assms(2)] by (auto simp: all_valid_def)
  have perm: "mset ?out = mset ?ps" by (simp add: out mset_array_sort)
  then have "set ?out = set ?ps" by (rule mset_eq_setD)
  with valid have valid_out: "all_valid ?out" by (simp add: all_valid_def)
  have "sorted (map ?key ?out)"
    unfolding out using valid by (rule sorted_array_sort_by_date)
  moreover have "distinct (map ?key ?out)"
  proof -
    have keys: "map ?key ?ps = map (\<lambda>d. ms_of (month_date d)) ts"
      using well_formed_dates(2) [OF assms(2)] by simp
    have "mset (map ?key ?out) = mset (map ?key ?ps)"
      using perm by (metis mset_map)
    then have "mset (map ?key ?out) = mset (map (\<lambda>d. ms_of (month_date d)) ts)"
      by (simp only: keys)
    then show ?thesis
      using well_formed_distinct [OF assms(2)] by (metis mset_eq_imp_distinct_iff)
  qed
  ultimately have "sorted_wrt (<) (map ?key ?out)"
    by (simp add: strict_sorted_iff)
  then have "sorted_wrt (\<lambda>a b. ?key a < ?key b) ?out"
    by (simp add: sorted_wrt_map)
  moreover have "date_before (pt_date a) (pt_date b)"
    if "a \<in> set ?out" and "b \<in> set ?out" and "?key a < ?key b" for a b
  proof -
    from that valid_out obtain s t where "pt_date a = ValidDate s" and "pt_date b = ValidDate t"
      by (cases "pt_date a"; cases "pt_date b") (auto simp: all_valid_def)
    with that(3) show ?thesis by simp
  qed
  ultimately have "sorted_wrt (\<lambda>a b. date_before (pt_date a) (pt_date b)) ?out"
    by (rule sorted_wrt_mono_rel [rotated]) (auto)
  moreover have "mset (map pt_date ?out) = mset (map month_date ts)"
    using perm dates by (metis mset_map)
  moreover have "\<forall>d \<in> set ts. \<forall>d' \<in> set ts. \<forall>y m y' m'.
      tuple_month d = Some (y, m) \<and> tuple_month d' = Some (y', m') \<longrightarrow>
      date_before (month_date d) (month_date d') = (y < y' \<or> (y = y' \<and> m < m'))"
    using month_date_order by blast
  ultimately show ?thesis by blast
qed

theorem parse_sorted_by_month_witness:
  "series_data (bls_payload ex_unordered) = Some (JArr ex_unordered) \<and>
   well_formed ex_unordered \<and>
   sorted_wrt (\<lambda>a b. date_before (pt_date a) (pt_date b))
     (parseBlsSeries example_env (bls_payload ex_unordered)) \<and>
   mset (map pt_date (parseBlsSeries example_env (bls_payload ex_unordered))) =
     {#ValidDate 1677628800000, ValidDate 1669852800000, ValidDate 1672531200000#} \<and>
   map pt_date (parseBlsSeries example_env (bls_payload ex_unordered)) =
     [ValidDate 1669852800000, ValidDate 1672531200000, ValidDate 1677628800000]"
proof -
  have shape: "series_data (bls_payload ex_unordered) = Some (JArr ex_unordered)"
    by (rule series_data_bls_payload)
  have months: "map tuple_month ex_unordered = [Some (2023, 3), Some (2022, 12), Some (2023, 1)]"
    by (simp add: ex_unordered_def tuple_month_def is_tuple_def Let_def eval_tuple eval_text)
  have wf: "well_formed ex_unordered"
    unfolding well_formed_def using months by (simp add: list_all_iff ex_unordered_def)
  have dates: "map month_date ex_unordered =
      [ValidDate 1677628800000, ValidDate 1669852800000, ValidDate 1672531200000]"
    using months by (simp add: ex_unordered_def month_date_def eval_date)
  have out: "map pt_date (parseBlsSeries example_env (bls_payload ex_unordered)) =
      [ValidDate 1669852800000, ValidDate 1672531200000, ValidDate 1677628800000]"
    by (simp add: parseBlsSeries_def parse_body_def series_data_bls_payload ex_unordered_def parse_point_def
        bls_tuple_def array_sort_def by_date_def jsub_def eval_date eval_text)
  from parse_sorted_by_month [OF shape wf, of example_env]
  have "sorted_wrt (\<lambda>a b. date_before (pt_date a) (pt_date b))
          (parseBlsSeries example_env (bls_payload ex_unordered))"
    and "mset (map pt_date (parseBlsSeries example_env (bls_payload ex_unordered))) =
          {#ValidDate 1677628800000, ValidDate 1669852800000, ValidDate 1672531200000#}"
    unfolding dates by simp_all
  with shape wf out show ?thesis by blast
qed

section \<open>Properties of the acquisition\<close>

text \<open>
  The two transport failures: a network fault is passed on with its message, a status
  outside 200 to 299 becomes the message of \<open>fetchSeries\<close> itself.
\<close>

lemma fetchSeries_failure:
  "fetchSeries (NetworkFault msg) = Inl msg"
  "\<not> (200 \<le> status \<and> status \<le> 299) \<Longrightarrow>
     fetchSeries (Response status body) = Inl (''BLS fetch failed ('' @ dec_digits status @ '')'')"
  by (auto simp: fetchSeries_def)

lemma useBlsData_snoc: "useBlsData env (evs @ [e]) = step env (useBlsData env evs) e"
  by (simp add: useBlsData_def)

lemma cancelled_settle: "cancelled (settle i r c) = cancelled c"
  by (simp add: settle_def Let_def)

lemma length_cancel_last: "length (cancel_last cs) = length cs"
  by (simp add: cancel_last_def)

lemma cancel_last_nth:
  assumes "k < length cs"
  shows "cancel_last cs ! k = (if Suc k = length cs then (cs ! k)\<lparr>cancelled := True\<rparr> else cs ! k)"
  using assms by (auto simp: cancel_last_def nth_list_update)

lemma others_cancelled_step:
  assumes "others_cancelled h"
  shows "others_cancelled (step env h e)"
proof (cases e)
  case (Effect y)
  show ?thesis
    unfolding others_cancelled_def
  proof (intro allI impI)
    fix k assume "Suc k < length (cycles (step env h e))"
    then have k: "k < length (cycles h)" by (simp add: Effect length_cancel_last)
    then have "cycles (step env h e) ! k = cancel_last (cycles h) ! k"
      by (simp add: Effect nth_append length_cancel_last)
    moreover have "cancelled (cancel_last (cycles h) ! k)"
      using assms k by (auto simp: cancel_last_nth others_cancelled_def)
    ultimately show "cancelled (cycles (step env h e) ! k)" by simp
  qed
next
  case (Settle k i t)
  with assms show ?thesis
    by (auto simp: others_cancelled_def nth_list_update cancelled_settle)
next
  case (Resume k)
  with assms show ?thesis
    by (auto simp: others_cancelled_def nth_list_update)
qed

lemma others_cancelled_reachable: "others_cancelled (useBlsData env evs)"
proof (induction evs rule: rev_induct)
  case Nil
  show ?case by (simp add: useBlsData_def others_cancelled_def init_hook_def)
next
  case (snoc e evs)
  then show ?case by (simp add: useBlsData_snoc others_cancelled_step)
qed

lemma after_await_cancelled:
  assumes "cancelled c"
  shows "after_await env c st = st"
  using assms by (simp add: after_await_def split: option.splits sum.splits)

lemmas eval_hook = useBlsData_def init_hook_def cancel_last_def new_cycle_def settle_def
  promise_all_def after_await_def array_elem_def

lemma fetchSeries_ex_ok:
  "fetchSeries ex_ok = Inr (bls_payload [bls_tuple ''2023'' ''M01'' ''299.17''])"
  by (simp add: fetchSeries_def ex_ok_def)

text \<open>
  Claim C7. In every state the hook can reach, the events of a cycle that is not the newest
  one (a cycle whose \<^verbatim>\<open>startYear\<close> has been replaced) leave the load state as it is: the
  settling of its fetches, and the code behind its \<^verbatim>\<open>await\<close>, whether the cycle succeeded
  or failed. The settling of a fetch never changes the load state by itself, so only the
  effect and the completion of the newest cycle ever commit one.
\<close>

theorem stale_cycle_never_commits:
  "state (step env (useBlsData env evs) (Settle k i t)) = state (useBlsData env evs) \<and>
   (Suc k \<noteq> length (cycles (useBlsData env evs)) \<longrightarrow>
      state (step env (useBlsData env evs) (Resume k)) = state (useBlsData env evs))"
proof (intro conjI impI)
  show "state (step env (useBlsData env evs) (Settle k i t)) = state (useBlsData env evs)"
    by simp
next
  let ?h = "useBlsData env evs"
  assume stale: "Suc k \<noteq> length (cycles ?h)"
  show "state (step env ?h (Resume k)) = state ?h"
  proof (cases "k < length (cycles ?h)")
    case True
    with stale have "Suc k < length (cycles ?h)" by simp
    then have "cancelled (cycles ?h ! k)"
      using others_cancelled_reachable [of env evs] by (simp add: others_cancelled_def)
    then show ?thesis by (simp add: after_await_cancelled)
  next
    case False
    then show ?thesis by simp
  qed
qed


theorem stale_cycle_never_commits_witness:
  "Suc 0 \<noteq> length (cycles (useBlsData example_env ex_superseded)) \<and>
   state (step example_env (useBlsData example_env ex_superseded) (Resume 0))
     = \<lparr>loading = False, error = None,
        data = Some \<lparr>headlineNSA = [\<lparr>pt_date = ValidDate 1672531200000, pt_value = Fin 299.17\<rparr>],
                     headlineSA = [\<lparr>pt_date = ValidDate 1672531200000, pt_value = Fin 299.17\<rparr>],
                     coreSA = [\<lparr>pt_date = ValidDate 1672531200000, pt_value = Fin 299.17\<rparr>]\<rparr>\<rparr> \<and>
   Suc 0 \<noteq> length (cycles (useBlsData example_env ex_late)) \<and>
   state (step example_env (useBlsData example_env ex_late) (Resume 0))
     = \<lparr>loading = True, error = None, data = None\<rparr>"
proof -
  have parse: "parseBlsSeries example_env (bls_payload [bls_tuple ''2023'' ''M01'' ''299.17''])
      = [\<lparr>pt_date = ValidDate 1672531200000, pt_value = Fin 299.17\<rparr>]"
    by (simp add: parseBlsSeries_def parse_body_def series_data_bls_payload parse_point_def
        bls_tuple_def array_sort_def eval_date eval_text)
  have sup: "length (cycles (useBlsData example_env ex_superseded)) = 2"
    and late: "length (cycles (useBlsData example_env ex_late)) = 2"
    by (simp_all add: ex_superseded_def ex_late_def eval_hook)
  have st_sup: "state (useBlsData example_env ex_superseded)
     = \<lparr>loading = False, error = None,
        data = Some \<lparr>headlineNSA = [\<lparr>pt_date = ValidDate 1672531200000, pt_value = Fin 299.17\<rparr>],
                     headlineSA = [\<lparr>pt_date = ValidDate 1672531200000, pt_value = Fin 299.17\<rparr>],
                     coreSA = [\<lparr>pt_date = ValidDate 1672531200000, pt_value = Fin 299.17\<rparr>]\<rparr>\<rparr>"
    by (simp add: ex_superseded_def eval_hook fetchSeries_ex_ok parse)
  have st_late: "state (useBlsData example_env ex_late) = \<lparr>loading = True, error = None, data = None\<rparr>"
    by (simp add: ex_late_def eval_hook)
  from stale_cycle_never_commits [of example_env ex_superseded 0 0 ex_ok] sup st_sup
  have a: "state (step example_env (useBlsData example_env ex_superseded) (Resume 0))
     = \<lparr>loading = False, error = None,
        data = Some \<lparr>headlineNSA = [\<lparr>pt_date = ValidDate 1672531200000, pt_value = Fin 299.17\<rparr>],
                     headlineSA = [\<lparr>pt_date = ValidDate 1672531200000, pt_value = Fin 299.17\<rparr>],
                     coreSA = [\<lparr>pt_date = ValidDate 1672531200000, pt_value = Fin 299.17\<rparr>]\<rparr>\<rparr>"
    by simp
  from stale_cycle_never_commits [of example_env ex_late 0 0 ex_ok] late st_late
  have b: "state (step example_env (useBlsData example_env ex_late) (Resume 0))
     = \<lparr>loading = True, error = None, data = None\<rparr>"
    by simp
  from a b sup late show ?thesis by simp
qed

lemma failing_cycle_start:
  assumes "j < 3" and "k = length (cycles h)"
  shows "failing_cycle k j msg outcome (step env h (Effect y))"
  using assms
  by (auto simp: failing_cycle_def cycle_fails_def length_cancel_last nth_append new_cycle_def
      loading_state_def less_Suc_eq numeral_3_eq_3)

lemma promise_all_failing:
  assumes "j < 3" and "length slots = 3"
    and "\<forall>i < 3. slots ! i = None \<or> slots ! i = Some (fetchSeries (outcome i))"
    and "fetchSeries (outcome j) = Inl msg"
    and "\<forall>i < 3. i \<noteq> j \<longrightarrow> (\<exists>v. fetchSeries (outcome i) = Inr v)"
    and "i < 3" and "slots ! i = Some (fetchSeries (outcome i))"
    and "jn = None \<or> jn = Some (Inl msg)"
  shows "promise_all slots (fetchSeries (outcome i)) jn = None
         \<or> promise_all slots (fetchSeries (outcome i)) jn = Some (Inl msg)"
    and "i = j \<longrightarrow> promise_all slots (fetchSeries (outcome i)) jn = Some (Inl msg)"
proof -
  have nf: "\<not> list_all is_fulfilled slots"
  proof -
    have "\<not> is_fulfilled (slots ! j)"
      using assms(1,3,4) by (auto dest!: spec [of _ j])
    moreover have "slots ! j \<in> set slots" using assms(1,2) by simp
    ultimately show ?thesis by (auto simp: list_all_iff)
  qed
  show "promise_all slots (fetchSeries (outcome i)) jn = None
         \<or> promise_all slots (fetchSeries (outcome i)) jn = Some (Inl msg)"
  proof (cases "i = j")
    case True
    with assms(4,8) show ?thesis by (auto simp: promise_all_def)
  next
    case False
    with assms(5,6) obtain v where "fetchSeries (outcome i) = Inr v" by blast
    with nf assms(8) show ?thesis by (auto simp: promise_all_def)
  qed
  show "i = j \<longrightarrow> promise_all slots (fetchSeries (outcome i)) jn = Some (Inl msg)"
    using assms(4,8) by (auto simp: promise_all_def)
qed


lemma cycle_fails_settle:
  assumes c: "cycle_fails j msg outcome c" and j: "j < 3"
    and fail: "fetchSeries (outcome j) = Inl msg"
    and ok: "\<forall>i < 3. i \<noteq> j \<longrightarrow> (\<exists>v. fetchSeries (outcome i) = Inr v)"
  shows "cycle_fails j msg outcome (settle i (fetchSeries (outcome i)) c)"
    and "resumed (settle i (fetchSeries (outcome i)) c) = resumed c"
    and "i = j \<longrightarrow> fetched (settle i (fetchSeries (outcome i)) c) ! j \<noteq> None"
proof -
  let ?r = "fetchSeries (outcome i)"
  show "resumed (settle i ?r c) = resumed c" by (simp add: settle_def Let_def)
  show "i = j \<longrightarrow> fetched (settle i ?r c) ! j \<noteq> None"
    using c j by (auto simp: settle_def Let_def cycle_fails_def)
  show "cycle_fails j msg outcome (settle i ?r c)"
  proof (cases "i < length (fetched c) \<and> fetched c ! i = None")
    case False
    then have "settle i ?r c = c" by (auto simp: settle_def)
    with c show ?thesis by simp
  next
    case True
    let ?slots = "(fetched c)[i := Some ?r]"
    from c have len: "length (fetched c) = 3"
      and slots: "\<forall>i < 3. fetched c ! i = None \<or> fetched c ! i = Some (fetchSeries (outcome i))"
      and jn: "joined c = None \<or> joined c = Some (Inl msg)"
      and jj: "fetched c ! j \<noteq> None \<longrightarrow> joined c = Some (Inl msg)"
      and rs: "resumed c \<longrightarrow> joined c \<noteq> None" and nc: "\<not> cancelled c"
      by (simp_all add: cycle_fails_def)
    from True len have i: "i < 3" by simp
    have len': "length ?slots = 3" using len by simp
    have slots': "\<forall>i' < 3. ?slots ! i' = None \<or> ?slots ! i' = Some (fetchSeries (outcome i'))"
    proof (intro allI impI)
      fix i' :: nat assume i': "i' < 3"
      show "?slots ! i' = None \<or> ?slots ! i' = Some (fetchSeries (outcome i'))"
      proof (cases "i' = i")
        case True
        with i' len show ?thesis by simp
      next
        case False
        with slots i' show ?thesis by simp
      qed
    qed
    have at: "?slots ! i = Some ?r" using i len by simp
    note pa = promise_all_failing [OF j len' slots' fail ok i at jn]
    have eq: "settle i ?r c = c\<lparr>fetched := ?slots, joined := promise_all ?slots ?r (joined c)\<rparr>"
      using True by (simp add: settle_def Let_def)
    have keep: "promise_all ?slots ?r (joined c) = joined c" if "joined c \<noteq> None"
      using that by (auto simp: promise_all_def)
    have "fetched c ! j \<noteq> None \<or> i = j" if "?slots ! j \<noteq> None"
      using that by (cases "i = j") (simp_all)
    then have jj': "?slots ! j \<noteq> None \<longrightarrow> promise_all ?slots ?r (joined c) = Some (Inl msg)"
      using jj keep pa(2) by auto
    have rs': "resumed c \<longrightarrow> promise_all ?slots ?r (joined c) \<noteq> None"
      using rs keep by auto
    show ?thesis
      unfolding eq cycle_fails_def using nc len' slots' pa(1) jj' rs' by simp
  qed
qed

lemma failing_cycle_step:
  assumes inv: "failing_cycle k j msg outcome h" and oc: "others_cancelled h"
    and ev: "delivers k outcome e"
    and j: "j < 3" and fail: "fetchSeries (outcome j) = Inl msg"
    and ok: "\<forall>i < 3. i \<noteq> j \<longrightarrow> (\<exists>v. fetchSeries (outcome i) = Inr v)"
  shows "failing_cycle k j msg outcome (step env h e)"
proof -
  from inv have len: "length (cycles h) = Suc k"
    and c: "cycle_fails j msg outcome (cycles h ! k)"
    and st: "state h = (if resumed (cycles h ! k) then error_state msg else loading_state)"
    by (simp_all add: failing_cycle_def)
  show ?thesis
  proof (cases e)
    case (Effect y)
    with ev show ?thesis by simp
  next
    case (Settle k' i t)
    show ?thesis
    proof (cases "k' = k")
      case True
      with ev Settle have t: "t = outcome i" by simp
      note s = cycle_fails_settle [OF c j fail ok, of i]
      show ?thesis
        using len st s(1,2) by (simp add: failing_cycle_def Settle True t)
    next
      case False
      then show ?thesis
        using len c st by (simp add: failing_cycle_def Settle)
    qed
  next
    case (Resume k')
    show ?thesis
    proof (cases "k' = k")
      case True
      show ?thesis
      proof (cases "\<not> resumed (cycles h ! k) \<and> joined (cycles h ! k) \<noteq> None")
        case False
        then show ?thesis using inv len by (auto simp: Resume True)
      next
        case go: True
        with c have jn: "joined (cycles h ! k) = Some (Inl msg)" and nc: "\<not> cancelled (cycles h ! k)"
          by (auto simp: cycle_fails_def)
        then have "after_await env (cycles h ! k) (state h) = error_state msg"
          by (simp add: after_await_def error_state_def)
        moreover have "cycle_fails j msg outcome ((cycles h ! k)\<lparr>resumed := True\<rparr>)"
          using c jn by (simp add: cycle_fails_def)
        ultimately show ?thesis
          using len go by (simp add: failing_cycle_def Resume True)
      qed
    next
      case False
      show ?thesis
      proof (cases "k' < length (cycles h)")
        case True
        with False len have "Suc k' < length (cycles h)" by simp
        with oc have "cancelled (cycles h ! k')" by (simp add: others_cancelled_def)
        then have "after_await env (cycles h ! k') st' = st'" for st'
          by (rule after_await_cancelled)
        then show ?thesis
          using len c st False by (simp add: failing_cycle_def Resume)
      next
        case False
        then show ?thesis using inv by (simp add: Resume)
      qed
    qed
  qed
qed


lemma failing_cycle_monotone:
  assumes inv: "failing_cycle k j msg outcome h" and ne: "delivers k outcome e"
  shows "fetched (cycles h ! k) ! j \<noteq> None \<longrightarrow> fetched (cycles (step env h e) ! k) ! j \<noteq> None"
    and "resumed (cycles h ! k) \<longrightarrow> resumed (cycles (step env h e) ! k)"
proof -
  from inv have len: "length (cycles h) = Suc k" by (simp add: failing_cycle_def)
  have keep: "fetched (settle i r c) ! j \<noteq> None" if "fetched c ! j \<noteq> None" for i r c
    using that by (cases "i = j") (auto simp: settle_def Let_def)
  show "fetched (cycles h ! k) ! j \<noteq> None \<longrightarrow> fetched (cycles (step env h e) ! k) ! j \<noteq> None"
    using ne len keep by (cases e) (auto simp: nth_list_update)
  show "resumed (cycles h ! k) \<longrightarrow> resumed (cycles (step env h e) ! k)"
    using ne len by (cases e) (auto simp: nth_list_update settle_def Let_def)
qed

lemma failing_cycle_run:
  assumes "failing_cycle k j msg outcome h" and "others_cancelled h"
    and "list_all (delivers k outcome) evs"
    and "j < 3" and "fetchSeries (outcome j) = Inl msg"
    and "\<forall>i < 3. i \<noteq> j \<longrightarrow> (\<exists>v. fetchSeries (outcome i) = Inr v)"
  shows "failing_cycle k j msg outcome (foldl (step env) h evs)"
    and "others_cancelled (foldl (step env) h evs)"
    and "fetched (cycles h ! k) ! j \<noteq> None
         \<longrightarrow> fetched (cycles (foldl (step env) h evs) ! k) ! j \<noteq> None"
    and "resumed (cycles h ! k) \<longrightarrow> resumed (cycles (foldl (step env) h evs) ! k)"
  using assms(1-3)
proof (induction evs arbitrary: h)
  case Nil
  {
    case 1 then show ?case by simp
  next
    case 2 then show ?case by simp
  next
    case 3 then show ?case by simp
  next
    case 4 then show ?case by simp
  }
next
  case (Cons e evs)
  {
    case 1
    then have e: "delivers k outcome e" and evs: "list_all (delivers k outcome) evs" by simp_all
    have inv': "failing_cycle k j msg outcome (step env h e)"
      using 1(1,2) e assms(4-6) by (rule failing_cycle_step)
    have oc': "others_cancelled (step env h e)"
      using 1(2) by (rule others_cancelled_step)
    from Cons.IH(1) [OF inv' oc' evs] show ?case by simp
  next
    case 2
    then have e: "delivers k outcome e" and evs: "list_all (delivers k outcome) evs" by simp_all
    have inv': "failing_cycle k j msg outcome (step env h e)"
      using 2(1,2) e assms(4-6) by (rule failing_cycle_step)
    have oc': "others_cancelled (step env h e)"
      using 2(2) by (rule others_cancelled_step)
    from Cons.IH(2) [OF inv' oc' evs] show ?case by simp
  next
    case 3
    then have e: "delivers k outcome e" and evs: "list_all (delivers k outcome) evs" by simp_all
    have inv': "failing_cycle k j msg outcome (step env h e)"
      using 3(1,2) e assms(4-6) by (rule failing_cycle_step)
    have oc': "others_cancelled (step env h e)"
      using 3(2) by (rule others_cancelled_step)
    from Cons.IH(3) [OF inv' oc' evs] failing_cycle_monotone(1) [OF 3(1) e, of env]
    show ?case by simp
  next
    case 4
    then have e: "delivers k outcome e" and evs: "list_all (delivers k outcome) evs" by simp_all
    have inv': "failing_cycle k j msg outcome (step env h e)"
      using 4(1,2) e assms(4-6) by (rule failing_cycle_step)
    have oc': "others_cancelled (step env h e)"
      using 4(2) by (rule others_cancelled_step)
    from Cons.IH(4) [OF inv' oc' evs] failing_cycle_monotone(2) [OF 4(1) e, of env]
    show ?case by simp
  }
qed

text \<open>
  Claim C6. A cycle starts (\<open>Effect y\<close>, after any history \<open>evs0\<close>) and \<^verbatim>\<open>startYear\<close>
  does not change while its events \<open>evs\<close> happen. When fetch \<open>j\<close> of the three fails with
  message \<open>msg\<close> (a network fault, a status outside 200 to 299) and the other two succeed,
  the load state never holds data during the cycle, and once the failure has been delivered
  and the code behind \<^verbatim>\<open>await\<close> has run, the load state is the error with that message,
  whatever the order of the events.
\<close>

theorem one_failure_is_error:
  assumes "list_all (delivers k outcome) evs"
    and "k = length (cycles (useBlsData env evs0))"
    and "j < 3" and "fetchSeries (outcome j) = Inl msg"
    and "\<forall>i < 3. i \<noteq> j \<longrightarrow> (\<exists>v. fetchSeries (outcome i) = Inr v)"
  shows "data (state (useBlsData env (evs0 @ Effect y # evs))) = None \<and>
         ((\<exists>a b. evs = a @ Resume k # b \<and> Settle k j (outcome j) \<in> set a) \<longrightarrow>
            state (useBlsData env (evs0 @ Effect y # evs))
              = \<lparr>loading = False, error = Some msg, data = None\<rparr>)"
proof -
  let ?h0 = "useBlsData env evs0"
  let ?h1 = "step env ?h0 (Effect y)"
  have run: "useBlsData env (evs0 @ Effect y # evs') = foldl (step env) ?h1 evs'" for evs'
    by (simp add: useBlsData_def)
  have inv1: "failing_cycle k j msg outcome ?h1"
    using assms(3,2) by (rule failing_cycle_start)
  have oc1: "others_cancelled ?h1"
    using others_cancelled_reachable by (rule others_cancelled_step)
  note all = failing_cycle_run [OF inv1 oc1 assms(1) assms(3-5), of env]
  have never_ready: "data (state (useBlsData env (evs0 @ Effect y # evs))) = None"
    using all(1) by (auto simp: run failing_cycle_def error_state_def loading_state_def)
  have final: "state (useBlsData env (evs0 @ Effect y # evs))
        = \<lparr>loading = False, error = Some msg, data = None\<rparr>"
    if split: "evs = a @ Resume k # b" and settled: "Settle k j (outcome j) \<in> set a" for a b
  proof -
    let ?ha = "foldl (step env) ?h1 a"
    let ?hr = "step env ?ha (Resume k)"
    have a_ok: "list_all (delivers k outcome) a" and b_ok: "list_all (delivers k outcome) b"
      using assms(1) unfolding split by simp_all
    note ra = failing_cycle_run [OF inv1 oc1 a_ok assms(3-5), of env]
    have settled_a: "fetched (cycles ?ha ! k) ! j \<noteq> None"
    proof -
      from settled obtain a1 a2 where a: "a = a1 @ Settle k j (outcome j) # a2"
        by (auto dest: split_list)
      let ?g = "foldl (step env) ?h1 a1"
      have a1_ok: "list_all (delivers k outcome) a1" and a2_ok: "list_all (delivers k outcome) a2"
        using a_ok unfolding a by simp_all
      note r1 = failing_cycle_run [OF inv1 oc1 a1_ok assms(3-5), of env]
      let ?g' = "step env ?g (Settle k j (outcome j))"
      have d: "delivers k outcome (Settle k j (outcome j))" by simp
      have inv': "failing_cycle k j msg outcome ?g'"
        using r1(1,2) d assms(3-5) by (rule failing_cycle_step)
      have oc': "others_cancelled ?g'" using r1(2) by (rule others_cancelled_step)
      from r1(1) have len: "length (cycles ?g) = Suc k"
        and c: "cycle_fails j msg outcome (cycles ?g ! k)" by (simp_all add: failing_cycle_def)
      have "fetched (cycles ?g' ! k) ! j \<noteq> None"
        using cycle_fails_settle(3) [OF c assms(3-5), of j] len by simp
      with failing_cycle_run(3) [OF inv' oc' a2_ok assms(3-5), of env]
      show ?thesis by (simp add: a)
    qed
    with ra(1) have joined_a: "joined (cycles ?ha ! k) = Some (Inl msg)"
      by (simp add: failing_cycle_def cycle_fails_def)
    from ra(1) have len_a: "length (cycles ?ha) = Suc k" by (simp add: failing_cycle_def)
    have inv_r: "failing_cycle k j msg outcome ?hr"
      using ra(1,2) _ assms(3-5) by (rule failing_cycle_step) simp
    have oc_r: "others_cancelled ?hr" using ra(2) by (rule others_cancelled_step)
    have res_r: "resumed (cycles ?hr ! k)"
      using joined_a len_a by simp
    note rb = failing_cycle_run [OF inv_r oc_r b_ok assms(3-5), of env]
    have "useBlsData env (evs0 @ Effect y # evs) = foldl (step env) ?hr b"
      by (simp add: run split)
    moreover from rb(4) res_r have "resumed (cycles (foldl (step env) ?hr b) ! k)" by simp
    ultimately show ?thesis
      using rb(1) by (simp add: failing_cycle_def error_state_def)
  qed
  from never_ready final show ?thesis by blast
qed


theorem one_failure_is_error_witness:
  "state (useBlsData example_env
      ([] @ Effect (Fin 2015) #
        [Settle 0 0 ex_ok, Settle 0 2 (Response 500 (Inr JNull)), Resume 0, Settle 0 1 ex_ok]))
     = \<lparr>loading = False, error = Some ''BLS fetch failed (500)'', data = None\<rparr> \<and>
   state (useBlsData example_env
      ([] @ Effect (Fin 2015) #
        [Settle 0 1 ex_ok, Settle 0 0 (NetworkFault ''Failed to fetch''), Settle 0 2 ex_ok,
         Resume 0]))
     = \<lparr>loading = False, error = Some ''Failed to fetch'', data = None\<rparr>"
proof -
  have k: "0 = length (cycles (useBlsData example_env []))"
    by (simp add: useBlsData_def init_hook_def)
  have j2: "(2::nat) < 3" and j0: "(0::nat) < 3" by simp_all
  have fail2: "fetchSeries (ex_status 2) = Inl ''BLS fetch failed (500)''"
    by (simp add: fetchSeries_def ex_status_def dec_digits.simps)
  have fail0: "fetchSeries (ex_fault 0) = Inl ''Failed to fetch''"
    by (simp add: fetchSeries_def ex_fault_def)
  have ok2: "\<forall>i < 3. i \<noteq> 2 \<longrightarrow> (\<exists>v. fetchSeries (ex_status i) = Inr v)"
    by (simp add: ex_status_def fetchSeries_ex_ok)
  have ok0: "\<forall>i < 3. i \<noteq> 0 \<longrightarrow> (\<exists>v. fetchSeries (ex_fault i) = Inr v)"
    by (simp add: ex_fault_def fetchSeries_ex_ok)
  let ?evs2 = "[Settle 0 0 ex_ok, Settle 0 2 (Response 500 (Inr JNull)), Resume 0,
                Settle 0 1 ex_ok]"
  let ?evs0 = "[Settle 0 1 ex_ok, Settle 0 0 (NetworkFault ''Failed to fetch''),
                Settle 0 2 ex_ok, Resume 0]"
  have d2: "list_all (delivers 0 ex_status) ?evs2" by (simp add: ex_status_def)
  have d0: "list_all (delivers 0 ex_fault) ?evs0" by (simp add: ex_fault_def)
  have s2: "\<exists>a b. ?evs2 = a @ Resume 0 # b \<and> Settle 0 2 (ex_status 2) \<in> set a"
  proof (intro exI conjI)
    show "?evs2 = [Settle 0 0 ex_ok, Settle 0 2 (Response 500 (Inr JNull))] @ Resume 0
        # [Settle 0 1 ex_ok]" by simp
    show "Settle 0 2 (ex_status 2)
        \<in> set [Settle 0 0 ex_ok, Settle 0 2 (Response 500 (Inr JNull))]"
      by (simp add: ex_status_def)
  qed
  have s0: "\<exists>a b. ?evs0 = a @ Resume 0 # b \<and> Settle 0 0 (ex_fault 0) \<in> set a"
  proof (intro exI conjI)
    show "?evs0 = [Settle 0 1 ex_ok, Settle 0 0 (NetworkFault ''Failed to fetch''),
        Settle 0 2 ex_ok] @ Resume 0 # []" by simp
    show "Settle 0 0 (ex_fault 0)
        \<in> set [Settle 0 1 ex_ok, Settle 0 0 (NetworkFault ''Failed to fetch''), Settle 0 2 ex_ok]"
      by (simp add: ex_fault_def)
  qed
  from one_failure_is_error [OF d2 k j2 fail2 ok2, of "Fin 2015"] s2
       one_failure_is_error [OF d0 k j0 fail0 ok0, of "Fin 2015"] s0
  show ?thesis by blast
qed

end
